theory Spec2Isabelle
  imports Main "HOL-Library.Word"
begin

section \<open>Bytes, errors and little-endian integers\<close>

text \<open>
  A Go \<open>[]byte\<close> is a list of 8-bit words; \<open>disk.PageID\<close> is a \<open>uint64\<close>.
  Every slice here has its capacity equal to its length (it comes from \<open>make\<close> or
  runs to the end of a page), so a slice expression out of range is a panic.
  Panics and returned errors are values of \<open>error\<close>. \<open>Unmodelled\<close> is not an error of
  the program: it marks the runs in which the source overwrites one part of a page with
  another or reads a page as a kind it was not written as, which the representation of
  pages below cannot express; no statement below is about such a run.
\<close>

type_synonym byte = "8 word"
type_synonym PageID = "64 word"

datatype error = Panic | ErrDuplicateKey | ErrNoFreeBuffer | ErrEOF | ErrSeek | ErrInvalidNodeType
  | Unmodelled

text \<open>\<open>binary.LittleEndian.PutUint16\<close> and \<open>binary.LittleEndian.Uint16\<close>. The callers
  of \<open>Uint16\<close> check that two bytes are there (Go panics otherwise).\<close>

definition PutUint16 :: "16 word \<Rightarrow> byte list" where
  "PutUint16 v = [of_nat (unat v mod 256), of_nat (unat v div 256)]"

definition Uint16 :: "byte list \<Rightarrow> 16 word" where
  "Uint16 b = of_nat (unat (b ! 0) + 256 * unat (b ! 1))"

text \<open>The builtin \<open>copy(dst, src)\<close>: the first \<open>min (len dst) (len src)\<close> elements of
  \<open>dst\<close> are replaced.\<close>

definition copy_slice :: "'a list \<Rightarrow> 'a list \<Rightarrow> 'a list" where
  "copy_slice dst src = take (length dst) src @ drop (length src) dst"

section \<open>Pair codec (pair.go)\<close>

record Pair =
  Key :: "byte list"
  Value :: "byte list"

text \<open>\<open>Pair.ToBytes\<close>: the buffer has exactly the size \<open>4+keyLen+valueLen\<close> of
  what is written into it, so the four writes are a concatenation. The two lengths are
  converted with \<open>uint16(...)\<close>, which truncates.\<close>

definition ToBytes :: "Pair \<Rightarrow> byte list" where
  "ToBytes p =
     (let keyLen = length (Key p); valueLen = length (Value p)
      in PutUint16 (of_nat keyLen) @ PutUint16 (of_nat valueLen) @ Key p @ Value p)"

text \<open>\<open>PairFromBytes\<close>. \<open>keyLen\<close> and \<open>valueLen\<close> are \<open>uint16\<close>; the bound
  \<open>4+keyLen\<close> of the first slice expression is computed in \<open>uint16\<close> and wraps, the
  upper bound of the second one is computed in \<open>int\<close>. A slice expression whose bounds
  are not \<open>low \<le> high \<le> cap\<close> panics.\<close>

definition PairFromBytes :: "byte list \<Rightarrow> error + Pair" where
  "PairFromBytes data =
     (if length data < 4 then Inl Panic
      else
        let keyLen = Uint16 (take 2 data);
            valueLen = Uint16 (take 2 (drop 2 data));
            hi = unat (4 + keyLen)
        in if hi < 4 \<or> length data < hi then Inl Panic
           else
             let key = copy_slice (replicate (unat keyLen) 0) (take (hi - 4) (drop 4 data));
                 lo = unat (4 + keyLen);
                 hi2 = 4 + unat keyLen + unat valueLen
             in if hi2 < lo \<or> length data < hi2 then Inl Panic
                else
                  let val = copy_slice (replicate (unat valueLen) 0)
                              (take (hi2 - lo) (drop lo data))
                  in Inr \<lparr>Key = key, Value = val\<rparr>)"

definition PairSize :: "nat \<Rightarrow> nat \<Rightarrow> nat" where
  "PairSize keyLen valueLen = 4 + keyLen + valueLen"

section \<open>Tuple layer (tuple.go)\<close>

type_synonym Tuple = "byte list list"

text \<open>\<open>Tuple.Encode\<close>: the buffer has exactly the size of what is written, so the
  sequential writes are a concatenation.\<close>

definition Encode :: "Tuple \<Rightarrow> byte list" where
  "Encode t = PutUint16 (of_nat (length t)) @
              concat (map (\<lambda>elem. PutUint16 (of_nat (length elem)) @ elem) t)"

text \<open>The loop of \<open>DecodeTuple\<close>; the argument is \<open>data[offset:]\<close>.\<close>

fun decode_elems :: "nat \<Rightarrow> byte list \<Rightarrow> error + Tuple" where
  "decode_elems 0 rest = Inr []"
| "decode_elems (Suc n) rest =
     (if length rest < 2 then Inl Panic
      else
        let elemLen = unat (Uint16 rest); body = drop 2 rest
        in if length body < elemLen then Inl Panic
           else (case decode_elems n (drop elemLen body) of
                   Inl e \<Rightarrow> Inl e
                 | Inr t \<Rightarrow> Inr (copy_slice (replicate elemLen 0) (take elemLen body) # t)))"

definition DecodeTuple :: "byte list \<Rightarrow> error + Tuple" where
  "DecodeTuple data =
     (if length data < 2 then Inl Panic
      else decode_elems (unat (Uint16 (take 2 data))) (drop 2 data))"

text \<open>\<open>SplitTuple\<close>: \<open>numKeyElems\<close> is an \<open>int\<close>; a negative one makes
  \<open>tuple[:numKeyElems]\<close> panic.\<close>

definition SplitTuple :: "Tuple \<Rightarrow> int \<Rightarrow> error + (Tuple \<times> Tuple)" where
  "SplitTuple tuple numKeyElems =
     (let n = (if numKeyElems > int (length tuple) then int (length tuple) else numKeyElems)
      in if n < 0 then Inl Panic
         else Inr (take (nat n) tuple, drop (nat n) tuple))"

definition MergeTuple :: "Tuple \<Rightarrow> Tuple \<Rightarrow> Tuple" where
  "MergeTuple key val = (let result = replicate (length key + length val) [];
          result = copy_slice result key;
          result = take (length key) result @ copy_slice (drop (length key) result) val
      in result)"

section \<open>Pages\<close>

text \<open>
  A page is 4096 bytes. The B+-tree reads and writes a page only through the accessors
  of \<open>Meta\<close>, \<open>Node\<close>, \<open>Leaf\<close> and \<open>Branch\<close>, so a page is represented by what these
  accessors read from it: a page as \<open>CreatePage\<close> zero-fills it, a meta page with its
  root page id, or a node page with the tag of its header and the content of its body.
  For a leaf body that is the two sibling ids, the pairs that \<open>PairAt\<close> returns for the
  slots \<open>0..NumPairs-1\<close> and the free-space offset; for a branch body the keys that
  \<open>KeyAt\<close> returns, the child ids that \<open>ChildAt\<close> returns for \<open>0..NumChildren-1\<close> and
  the free-space offset.
  The byte sizes that decide whether an insertion fits are computed as the source
  computes them.
\<close>

record LeafBody =
  prev_page_id :: PageID
  next_page_id :: PageID
  pairs :: "Pair list"
  leaf_free_space_offset :: nat

record BranchBody =
  keys :: "byte list list"
  children :: "PageID list"
  branch_free_space_offset :: nat

datatype Page = ZeroPage | MetaPage PageID | LeafPage LeafBody | BranchPage BranchBody

section \<open>Disk manager (disk.go)\<close>

text \<open>The heap file is the list of its pages. Failures of the operating system other
  than reading past the end of the file are not modelled.\<close>

record DiskManager =
  heapFile :: "Page list"
  nextPageID :: PageID

definition PageSize :: nat where
  "PageSize = 4096"

text \<open>\<open>offset := int64(PageSize * pageID)\<close>: the product is computed in \<open>uint64\<close>;
  a negative offset makes \<open>Seek\<close> fail.\<close>

definition page_offset :: "PageID \<Rightarrow> error + nat" where
  "page_offset pageID =
     (let offset = (4096 :: 64 word) * pageID
      in if sint offset < 0 then Inl ErrSeek else Inr (unat offset div 4096))"

definition ReadPageData :: "DiskManager \<Rightarrow> PageID \<Rightarrow> error + Page" where
  "ReadPageData d pageID =
     (case page_offset pageID of
        Inl e \<Rightarrow> Inl e
      | Inr i \<Rightarrow> if i < length (heapFile d) then Inr (heapFile d ! i) else Inl ErrEOF)"

definition WritePageData :: "DiskManager \<Rightarrow> PageID \<Rightarrow> Page \<Rightarrow> error + DiskManager" where
  "WritePageData d pageID data =
     (case page_offset pageID of
        Inl e \<Rightarrow> Inl e
      | Inr i \<Rightarrow>
          if i < length (heapFile d) then Inr (d\<lparr>heapFile := (heapFile d)[i := data]\<rparr>)
          else Inr (d\<lparr>heapFile := heapFile d @ replicate (i - length (heapFile d)) ZeroPage @ [data]\<rparr>))"

definition AllocatePage :: "DiskManager \<Rightarrow> PageID \<times> DiskManager" where
  "AllocatePage d = (nextPageID d, d\<lparr>nextPageID := nextPageID d + 1\<rparr>)"

section \<open>Buffer pool (buffer.go)\<close>

text \<open>\<open>UsageCount\<close> is a \<open>uint64\<close>, \<open>refCount\<close> an \<open>int\<close> (64 bits, read as signed).
  Each frame owns its buffer for the life of the pool, so a \<open>*Buffer\<close> is the index of
  its frame.\<close>

record Buffer =
  PageID :: PageID
  Page :: Page
  IsDirty :: bool
  refCount :: "64 word"
  isValid :: bool

record Frame =
  UsageCount :: "64 word"
  Buffer :: Buffer

type_synonym BufferID = nat

record BufferPool =
  frames :: "Frame list"
  nextVictimID :: BufferID

definition NewBufferPool :: "nat \<Rightarrow> BufferPool" where
  "NewBufferPool poolSize =
     \<lparr>frames = replicate poolSize
        \<lparr>UsageCount = 0,
         Buffer = \<lparr>PageID = 0, Page = ZeroPage, IsDirty = False, refCount = 0, isValid = False\<rparr>\<rparr>,
      nextVictimID = 0\<rparr>"

definition Size :: "BufferPool \<Rightarrow> nat" where
  "Size p = length (frames p)"

text \<open>\<open>incrementID\<close>: the remainder by the size of an empty pool is an integer
  division by zero, which panics.\<close>

definition incrementID :: "BufferPool \<Rightarrow> BufferID \<Rightarrow> error + BufferID" where
  "incrementID p bufferID =
     (if Size p = 0 then Inl Panic else Inr ((bufferID + 1) mod Size p))"

text \<open>The loop of \<open>Evict\<close>; the second argument is \<open>consecutivePinned\<close>. Indexing
  \<open>p.frames\<close> out of range panics. Where the cursor is advanced the pool has a frame
  at the cursor, so \<open>incrementID\<close> does not panic there and gives the remainder.\<close>

function Evict_loop :: "BufferPool \<Rightarrow> nat \<Rightarrow> (error + BufferID) \<times> BufferPool" where
  "Evict_loop p consecutivePinned =
     (if nextVictimID p \<ge> length (frames p) then (Inl Panic, p)
      else if UsageCount (frames p ! nextVictimID p) = 0 then (Inr (nextVictimID p), p)
      else if refCount (Buffer (frames p ! nextVictimID p)) = 0 then
        Evict_loop
          (p\<lparr>frames := (frames p)[nextVictimID p :=
                 (frames p ! nextVictimID p)
                   \<lparr>UsageCount := UsageCount (frames p ! nextVictimID p) - 1\<rparr>],
             nextVictimID := (nextVictimID p + 1) mod length (frames p)\<rparr>)
          0
      else if consecutivePinned + 1 \<ge> length (frames p) then (Inl ErrNoFreeBuffer, p)
      else Evict_loop (p\<lparr>nextVictimID := (nextVictimID p + 1) mod length (frames p)\<rparr>)
             (consecutivePinned + 1))"
  by pat_completeness auto
termination
proof (relation "measures [\<lambda>(p, c). sum_list (map (\<lambda>f. unat (UsageCount f)) (frames p)),
                           \<lambda>(p, c). length (frames p) - c]")
  show "wf (measures [\<lambda>(p, c). sum_list (map (\<lambda>f. unat (UsageCount f)) (frames p)),
                      \<lambda>(p, c). length (frames p) - c])"
    by simp
next
  fix p :: BufferPool and consecutivePinned :: nat
  let ?v = "nextVictimID p"
  let ?f = "frames p ! ?v"
  assume a: "\<not> length (frames p) \<le> ?v" and b: "UsageCount ?f \<noteq> 0"
  have v: "?v < length (frames p)" using a by simp
  have pos: "0 < unat (UsageCount ?f)" using b by (simp add: unat_gt_0)
  have dec: "unat (UsageCount ?f - 1) = unat (UsageCount ?f) - 1"
    using b by (simp add: unat_minus_one)
  have "sum_list (map (\<lambda>f. unat (UsageCount f)) ((frames p)[?v := ?f\<lparr>UsageCount := UsageCount ?f - 1\<rparr>]))
        < sum_list (map (\<lambda>f. unat (UsageCount f)) (frames p))"
  proof -
    have l: "map (\<lambda>f. unat (UsageCount f)) ((frames p)[?v := ?f\<lparr>UsageCount := UsageCount ?f - 1\<rparr>])
             = (map (\<lambda>f. unat (UsageCount f)) (frames p))[?v := unat (UsageCount ?f) - 1]"
      by (simp add: map_update dec)
    have n: "(map (\<lambda>f. unat (UsageCount f)) (frames p)) ! ?v = unat (UsageCount ?f)"
      using v by simp
    have "sum_list ((map (\<lambda>f. unat (UsageCount f)) (frames p))[?v := unat (UsageCount ?f) - 1])
          = sum_list (map (\<lambda>f. unat (UsageCount f)) (frames p)) + (unat (UsageCount ?f) - 1)
              - unat (UsageCount ?f)"
      using v n by (simp add: sum_list_update)
    moreover have "unat (UsageCount ?f) \<le> sum_list (map (\<lambda>f. unat (UsageCount f)) (frames p))"
    proof -
      have "map (\<lambda>f. unat (UsageCount f)) (frames p) ! ?v
              \<in> set (map (\<lambda>f. unat (UsageCount f)) (frames p))"
        by (rule nth_mem) (simp add: v)
      then have "map (\<lambda>f. unat (UsageCount f)) (frames p) ! ?v
              \<le> sum_list (map (\<lambda>f. unat (UsageCount f)) (frames p))"
        by (simp add: member_le_sum_list)
      then show ?thesis by (simp only: n)
    qed
    ultimately show ?thesis using pos l by simp
  qed
  then show "((p\<lparr>frames := (frames p)[?v := ?f\<lparr>UsageCount := UsageCount ?f - 1\<rparr>],
                 nextVictimID := (?v + 1) mod length (frames p)\<rparr>, 0),
              p, consecutivePinned)
             \<in> measures [\<lambda>(p, c). sum_list (map (\<lambda>f. unat (UsageCount f)) (frames p)),
                          \<lambda>(p, c). length (frames p) - c]"
    by simp
next
  fix p :: BufferPool and consecutivePinned :: nat
  assume "\<not> length (frames p) \<le> consecutivePinned + 1"
  then show "((p\<lparr>nextVictimID := (nextVictimID p + 1) mod length (frames p)\<rparr>, consecutivePinned + 1),
              p, consecutivePinned)
             \<in> measures [\<lambda>(p, c). sum_list (map (\<lambda>f. unat (UsageCount f)) (frames p)),
                          \<lambda>(p, c). length (frames p) - c]"
    by simp
qed

definition Evict :: "BufferPool \<Rightarrow> (error + BufferID) \<times> BufferPool" where
  "Evict p = Evict_loop p 0"

declare Evict_loop.simps [simp del]

section \<open>Buffer pool manager (buffer.go)\<close>

record BufferPoolManager =
  disk :: DiskManager
  pool :: BufferPool
  pageTable :: "PageID \<rightharpoonup> BufferID"

definition NewBufferPoolManager :: "DiskManager \<Rightarrow> BufferPool \<Rightarrow> BufferPoolManager" where
  "NewBufferPoolManager diskManager p = \<lparr>disk = diskManager, pool = p, pageTable = Map.empty\<rparr>"

definition frame_at :: "BufferPoolManager \<Rightarrow> BufferID \<Rightarrow> Frame" where
  "frame_at m bufferID = frames (pool m) ! bufferID"

definition set_frame :: "BufferPoolManager \<Rightarrow> BufferID \<Rightarrow> Frame \<Rightarrow> BufferPoolManager" where
  "set_frame m bufferID f = m\<lparr>pool := (pool m)\<lparr>frames := (frames (pool m))[bufferID := f]\<rparr>\<rparr>"

text \<open>The part that \<open>FetchPage\<close> and \<open>CreatePage\<close> share: the dirty page of a valid
  victim is written back.\<close>

definition write_back :: "DiskManager \<Rightarrow> Frame \<Rightarrow> error + DiskManager" where
  "write_back d frame =
     (if isValid (Buffer frame) \<and> IsDirty (Buffer frame)
      then WritePageData d (PageID (Buffer frame)) (Page (Buffer frame))
      else Inr d)"

definition FetchPage :: "BufferPoolManager \<Rightarrow> PageID \<Rightarrow> (error + BufferID) \<times> BufferPoolManager" where
  "FetchPage m pageID =
     (case pageTable m pageID of
        Some bufferID \<Rightarrow>
          if bufferID \<ge> length (frames (pool m)) then (Inl Panic, m)
          else
            let frame = frame_at m bufferID
            in (Inr bufferID,
                set_frame m bufferID
                  (frame\<lparr>UsageCount := UsageCount frame + 1,
                         Buffer := (Buffer frame)\<lparr>refCount := refCount (Buffer frame) + 1\<rparr>\<rparr>))
      | None \<Rightarrow>
          (case Evict (pool m) of
             (Inl e, p) \<Rightarrow> (Inl e, m\<lparr>pool := p\<rparr>)
           | (Inr bufferID, p) \<Rightarrow>
               let m1 = m\<lparr>pool := p\<rparr>;
                   frame = frame_at m1 bufferID;
                   evictPageID = PageID (Buffer frame);
                   wasValid = isValid (Buffer frame)
               in (case write_back (disk m1) frame of
                     Inl e \<Rightarrow> (Inl e, m1)
                   | Inr d \<Rightarrow>
                       let m2 = m1\<lparr>disk := d\<rparr>;
                           frame2 = frame\<lparr>Buffer := (Buffer frame)
                                      \<lparr>PageID := pageID, IsDirty := False, isValid := True\<rparr>\<rparr>
                       in (case ReadPageData d pageID of
                             Inl e \<Rightarrow> (Inl e, set_frame m2 bufferID frame2)
                           | Inr data \<Rightarrow>
                               let frame3 = frame2\<lparr>UsageCount := 1,
                                              Buffer := (Buffer frame2)\<lparr>Page := data, refCount := 1\<rparr>\<rparr>;
                                   m3 = set_frame m2 bufferID frame3;
                                   pt = (if wasValid then (pageTable m3)(evictPageID := None)
                                         else pageTable m3)
                               in (Inr bufferID, m3\<lparr>pageTable := pt(pageID \<mapsto> bufferID)\<rparr>)))))"

definition CreatePage :: "BufferPoolManager \<Rightarrow> (error + BufferID) \<times> BufferPoolManager" where
  "CreatePage m =
     (case Evict (pool m) of
        (Inl e, p) \<Rightarrow> (Inl e, m\<lparr>pool := p\<rparr>)
      | (Inr bufferID, p) \<Rightarrow>
          let m1 = m\<lparr>pool := p\<rparr>;
              frame = frame_at m1 bufferID;
              evictPageID = PageID (Buffer frame);
              wasValid = isValid (Buffer frame)
          in (case write_back (disk m1) frame of
                Inl e \<Rightarrow> (Inl e, m1)
              | Inr d \<Rightarrow>
                  let (pageID, d2) = AllocatePage d;
                      m2 = m1\<lparr>disk := d2\<rparr>;
                      frame2 = \<lparr>UsageCount = 1,
                                Buffer = \<lparr>PageID = pageID, Page = ZeroPage, IsDirty = True,
                                          refCount = 1, isValid = True\<rparr>\<rparr>;
                      m3 = set_frame m2 bufferID frame2;
                      pt = (if wasValid then (pageTable m3)(evictPageID := None)
                            else pageTable m3)
                  in (Inr bufferID, m3\<lparr>pageTable := pt(pageID \<mapsto> bufferID)\<rparr>)))"

text \<open>A frame is pinned and in use when neither counter is zero: the two tests of
  \<open>Evict\<close>.\<close>

definition pinned :: "Frame \<Rightarrow> bool" where
  "pinned f = (UsageCount f \<noteq> 0 \<and> refCount (Buffer f) \<noteq> 0)"


text \<open>Two pools of two frames for the clock sweep: in the first, frame 0 is in use but
  not pinned and the cursor is at the pinned frame 1; in the second both frames are
  pinned.\<close>

definition used_frame :: "64 word \<Rightarrow> 64 word \<Rightarrow> Frame" where
  "used_frame usage refs =
     \<lparr>UsageCount = usage,
      Buffer = \<lparr>PageID = 0, Page = ZeroPage, IsDirty = False, refCount = refs, isValid = True\<rparr>\<rparr>"

definition sweep_pool :: BufferPool where
  "sweep_pool = \<lparr>frames = [used_frame 1 0, used_frame 1 1], nextVictimID = 1\<rparr>"

definition pinned_pool :: BufferPool where
  "pinned_pool = \<lparr>frames = [used_frame 1 1, used_frame 1 1], nextVictimID = 1\<rparr>"

section \<open>Nodes (node.go)\<close>

definition NodeHeaderSize :: nat where
  "NodeHeaderSize = 8"

text \<open>\<open>len(l.data)\<close> and \<open>len(b.data)\<close>: the body of a node is the page without its
  header.\<close>

definition body_len :: nat where
  "body_len = PageSize - NodeHeaderSize"

definition InvalidPageID :: PageID where
  "InvalidPageID = 0xFFFFFFFFFFFFFFFF"

text \<open>\<open>bytes.Compare\<close>: lexicographic on unsigned bytes, a proper prefix is smaller.\<close>

fun bytes_Compare :: "byte list \<Rightarrow> byte list \<Rightarrow> int" where
  "bytes_Compare [] [] = 0"
| "bytes_Compare [] (y # ys) = - 1"
| "bytes_Compare (x # xs) [] = 1"
| "bytes_Compare (x # xs) (y # ys) =
     (if x < y then - 1 else if y < x then 1 else bytes_Compare xs ys)"

text \<open>\<open>NewNode\<close> reads the node type from byte 0 of the page. A zero-filled page has
  type 0. Byte 0 of a meta page is the low byte of the root page id.\<close>

datatype Node = LeafNode LeafBody | BranchNode BranchBody | InvalidNode | UnmodelledNode

definition NewNode :: "Page \<Rightarrow> Node" where
  "NewNode pg =
     (case pg of
        ZeroPage \<Rightarrow> InvalidNode
      | MetaPage r \<Rightarrow> if (ucast r :: byte) = 1 \<or> (ucast r :: byte) = 2 then UnmodelledNode
                      else InvalidNode
      | LeafPage l \<Rightarrow> LeafNode l
      | BranchPage b \<Rightarrow> BranchNode b)"

section \<open>Leaf nodes (leaf.go)\<close>

definition LeafHeaderSize :: nat where
  "LeafHeaderSize = 20"

definition LeafSlotSize :: nat where
  "LeafSlotSize = 2"

text \<open>\<open>Leaf.Initialize\<close> writes the four header fields.\<close>

definition Leaf_Initialize :: LeafBody where
  "Leaf_Initialize =
     \<lparr>prev_page_id = InvalidPageID, next_page_id = InvalidPageID, pairs = [],
      leaf_free_space_offset = body_len\<rparr>"

definition PrevPageID :: "LeafBody \<Rightarrow> PageID option" where
  "PrevPageID l = (if prev_page_id l = InvalidPageID then None else Some (prev_page_id l))"

definition NextPageID :: "LeafBody \<Rightarrow> PageID option" where
  "NextPageID l = (if next_page_id l = InvalidPageID then None else Some (next_page_id l))"

definition SetPrevPageID :: "LeafBody \<Rightarrow> PageID option \<Rightarrow> LeafBody" where
  "SetPrevPageID l pid =
     (case pid of None \<Rightarrow> l\<lparr>prev_page_id := InvalidPageID\<rparr>
               | Some i \<Rightarrow> l\<lparr>prev_page_id := i\<rparr>)"

definition SetNextPageID :: "LeafBody \<Rightarrow> PageID option \<Rightarrow> LeafBody" where
  "SetNextPageID l pid =
     (case pid of None \<Rightarrow> l\<lparr>next_page_id := InvalidPageID\<rparr>
               | Some i \<Rightarrow> l\<lparr>next_page_id := i\<rparr>)"

definition NumPairs :: "LeafBody \<Rightarrow> nat" where
  "NumPairs l = length (pairs l)"

definition slotOffset :: "nat \<Rightarrow> nat" where
  "slotOffset slotID = LeafHeaderSize + slotID * LeafSlotSize"

definition Leaf_freeSpace :: "LeafBody \<Rightarrow> int" where
  "Leaf_freeSpace l = int (leaf_free_space_offset l) - int (slotOffset (NumPairs l))"

text \<open>\<open>PairAt\<close> is called for slots below \<open>NumPairs\<close> only.\<close>

definition PairAt :: "LeafBody \<Rightarrow> nat \<Rightarrow> Pair" where
  "PairAt l slotID = pairs l ! slotID"

text \<open>The binary search of \<open>Leaf.SearchSlotID\<close>.\<close>

function SearchSlotID_loop :: "LeafBody \<Rightarrow> byte list \<Rightarrow> nat \<Rightarrow> nat \<Rightarrow> nat \<times> bool" where
  "SearchSlotID_loop l key lo hi =
     (if lo < hi then
        (if bytes_Compare (Key (PairAt l ((lo + hi) div 2))) key < 0
           then SearchSlotID_loop l key ((lo + hi) div 2 + 1) hi
         else if bytes_Compare (Key (PairAt l ((lo + hi) div 2))) key > 0
           then SearchSlotID_loop l key lo ((lo + hi) div 2)
         else ((lo + hi) div 2, True))
      else (lo, False))"
  by pat_completeness auto
termination
  by (relation "measure (\<lambda>(l, key, lo, hi). hi - lo)") auto

declare SearchSlotID_loop.simps [simp del]

definition SearchSlotID :: "LeafBody \<Rightarrow> byte list \<Rightarrow> nat \<times> bool" where
  "SearchSlotID l key = SearchSlotID_loop l key 0 (NumPairs l)"

text \<open>
  \<open>Leaf.Insert\<close>. When the pair fits, the slots from \<open>slotID\<close> on move one place up and
  the new slot points to the pair, written below the old free-space offset; the pair that
  \<open>PairAt\<close> then reads there is the one written, its lengths being far below
  \<open>2^16\<close>. An insertion above \<open>NumPairs\<close> would leave a slot that was never written.
\<close>

definition Leaf_Insert :: "LeafBody \<Rightarrow> nat \<Rightarrow> byte list \<Rightarrow> byte list \<Rightarrow> error + (LeafBody \<times> bool)" where
  "Leaf_Insert l slotID key val =
     (let pairBytes = ToBytes \<lparr>Key = key, Value = val\<rparr>;
          pairLen = length pairBytes
      in if Leaf_freeSpace l < int (LeafSlotSize + pairLen) then Inr (l, False)
         else if NumPairs l < slotID then Inl Unmodelled
         else
           let newOffset = leaf_free_space_offset l - pairLen
           in Inr (l\<lparr>pairs := take slotID (pairs l) @ [\<lparr>Key = key, Value = val\<rparr>]
                                 @ drop slotID (pairs l),
                       leaf_free_space_offset := newOffset\<rparr>, True))"

text \<open>The two rebuilding loops of \<open>Leaf.SplitInsert\<close>: the pairs are inserted at the
  slots \<open>i, i+1, ...\<close> and the result of \<open>Insert\<close> is not looked at.\<close>

fun insert_pairs :: "LeafBody \<Rightarrow> nat \<Rightarrow> Pair list \<Rightarrow> error + LeafBody" where
  "insert_pairs l i [] = Inr l"
| "insert_pairs l i (p # ps) =
     (case Leaf_Insert l i (Key p) (Value p) of
        Inl e \<Rightarrow> Inl e
      | Inr (l', ok) \<Rightarrow> insert_pairs l' (i + 1) ps)"

text \<open>\<open>Leaf.SplitInsert\<close> returns the two leaves and the overflow key
  \<open>pairs[mid-1].Key\<close>; with a single pair, \<open>mid\<close> is 0 and the index \<open>-1\<close> panics.
  The result is (current leaf, new leaf, overflow key).\<close>

definition Leaf_SplitInsert ::
  "LeafBody \<Rightarrow> LeafBody \<Rightarrow> byte list \<Rightarrow> byte list \<Rightarrow> error + (LeafBody \<times> LeafBody \<times> byte list)" where
  "Leaf_SplitInsert l newLeaf key val =
     (let old = map (PairAt l) [0 ..< NumPairs l];
          insertPos = length (takeWhile (\<lambda>p. bytes_Compare (Key p) key < 0) old);
          all = take insertPos old @ [\<lparr>Key = key, Value = val\<rparr>] @ drop insertPos old;
          mid = length all div 2
      in case insert_pairs Leaf_Initialize 0 (take mid all) of
           Inl e \<Rightarrow> Inl e
         | Inr newLeaf' \<Rightarrow>
             (case insert_pairs Leaf_Initialize 0 (drop mid all) of
                Inl e \<Rightarrow> Inl e
              | Inr l' \<Rightarrow>
                  if mid = 0 then Inl Panic
                  else Inr (l', newLeaf', Key (all ! (mid - 1)))))"

section \<open>Branch nodes (branch.go)\<close>

definition BranchHeaderSize :: nat where
  "BranchHeaderSize = 4"

definition BranchSlotSize :: nat where
  "BranchSlotSize = 2"

definition BranchChildSize :: nat where
  "BranchChildSize = 8"

definition maxKeys :: nat where
  "maxKeys = 100"

definition NumChildren :: "BranchBody \<Rightarrow> nat" where
  "NumChildren b = length (children b)"

definition NumKeys :: "BranchBody \<Rightarrow> nat" where
  "NumKeys b = (if NumChildren b = 0 then 0 else NumChildren b - 1)"

definition childOffset :: "nat \<Rightarrow> nat" where
  "childOffset idx = BranchHeaderSize + maxKeys * BranchSlotSize + idx * BranchChildSize"

text \<open>\<open>KeyAt\<close> is called for indices below \<open>NumKeys\<close>, \<open>ChildAt\<close> for indices below
  \<open>NumChildren\<close>.\<close>

definition KeyAt :: "BranchBody \<Rightarrow> nat \<Rightarrow> byte list" where
  "KeyAt b idx = keys b ! idx"

definition ChildAt :: "BranchBody \<Rightarrow> nat \<Rightarrow> PageID" where
  "ChildAt b idx = children b ! idx"

text \<open>
  A branch body with the given keys and children, the key records written downwards
  from the end of the body, as \<open>Initialize\<close> and the loops of \<open>SplitInsert\<close> write
  them without a check of the free space. The key slots beyond \<open>maxKeys\<close> lie in the
  child array, and key records below the end of the child array lie in it too: these
  runs are not modelled.
\<close>

definition key_records_size :: "byte list list \<Rightarrow> nat" where
  "key_records_size ks = sum_list (map (\<lambda>k. 2 + length k) ks)"

definition build_branch :: "byte list list \<Rightarrow> PageID list \<Rightarrow> error + BranchBody" where
  "build_branch ks cs =
     (if maxKeys < length ks \<or> body_len < childOffset (length cs) + key_records_size ks
      then Inl Unmodelled
      else Inr \<lparr>keys = ks, children = cs,
                branch_free_space_offset = body_len - key_records_size ks\<rparr>)"

definition Branch_Initialize :: "byte list \<Rightarrow> PageID \<Rightarrow> PageID \<Rightarrow> error + BranchBody" where
  "Branch_Initialize key leftChild rightChild = build_branch [key] [leftChild, rightChild]"

text \<open>The binary search of \<open>Branch.SearchChildIdx\<close>: an equal key goes right.\<close>

function SearchChildIdx_loop :: "BranchBody \<Rightarrow> byte list \<Rightarrow> nat \<Rightarrow> nat \<Rightarrow> nat" where
  "SearchChildIdx_loop b key lo hi =
     (if lo < hi then
        (if bytes_Compare (KeyAt b ((lo + hi) div 2)) key \<le> 0
           then SearchChildIdx_loop b key ((lo + hi) div 2 + 1) hi
         else SearchChildIdx_loop b key lo ((lo + hi) div 2))
      else lo)"
  by pat_completeness auto
termination
  by (relation "measure (\<lambda>(b, key, lo, hi). hi - lo)") auto

declare SearchChildIdx_loop.simps [simp del]

definition SearchChildIdx :: "BranchBody \<Rightarrow> byte list \<Rightarrow> nat" where
  "SearchChildIdx b key = SearchChildIdx_loop b key 0 (NumKeys b)"

definition SearchChild :: "BranchBody \<Rightarrow> byte list \<Rightarrow> PageID" where
  "SearchChild b key = ChildAt b (SearchChildIdx b key)"

definition Branch_freeSpace :: "BranchBody \<Rightarrow> int" where
  "Branch_freeSpace b = int (branch_free_space_offset b) - int (childOffset (NumChildren b))"

text \<open>
  \<open>Branch.Insert\<close>: the new child id goes to \<open>childIdx+1\<close>, the new key to
  \<open>childIdx\<close>. With \<open>maxKeys\<close> keys already there the key slot written lies in the
  child array, and on a body without children or with \<open>childIdx\<close> above \<open>NumKeys\<close>
  entries are read that were never written: not modelled.
\<close>

definition Branch_Insert ::
  "BranchBody \<Rightarrow> nat \<Rightarrow> byte list \<Rightarrow> PageID \<Rightarrow> error + (BranchBody \<times> bool)" where
  "Branch_Insert b childIdx key newChildPageID =
     (let keyLen = length key;
          needed = 2 + keyLen + BranchChildSize
      in if Branch_freeSpace b < int needed then Inr (b, False)
         else if NumChildren b = 0 \<or> NumKeys b < childIdx \<or> maxKeys \<le> NumKeys b
           then Inl Unmodelled
         else
           Inr (b\<lparr>children := take (childIdx + 1) (children b) @ [newChildPageID]
                                  @ drop (childIdx + 1) (children b),
                   keys := take childIdx (keys b) @ [key] @ drop childIdx (keys b),
                   branch_free_space_offset := branch_free_space_offset b - (2 + keyLen)\<rparr>,
                True))"

text \<open>\<open>Branch.SplitInsert\<close>; the result is (current branch, new branch, overflow
  key). The new branch gets the keys below \<open>mid\<close>, the current one those above.\<close>

definition Branch_SplitInsert ::
  "BranchBody \<Rightarrow> BranchBody \<Rightarrow> byte list \<Rightarrow> PageID
     \<Rightarrow> error + (BranchBody \<times> BranchBody \<times> byte list)" where
  "Branch_SplitInsert b newBranch key newChildPageID =
     (if NumChildren b = 0 then Inl Unmodelled
      else
        let numKeys = NumKeys b;
            ks = map (KeyAt b) [0 ..< numKeys];
            cs = map (ChildAt b) [0 ..< numKeys + 1];
            insertPos = length (takeWhile (\<lambda>k. bytes_Compare k key \<le> 0) ks);
            ks = take insertPos ks @ [key] @ drop insertPos ks;
            cs = take (insertPos + 1) cs @ [newChildPageID] @ drop (insertPos + 1) cs;
            mid = length ks div 2;
            overflowKey = ks ! mid
        in case build_branch (take mid ks) (take (mid + 1) cs) of
             Inl e \<Rightarrow> Inl e
           | Inr newBranch' \<Rightarrow>
               (case build_branch (drop (mid + 1) ks) (drop (mid + 1) cs) of
                  Inl e \<Rightarrow> Inl e
                | Inr b' \<Rightarrow> Inr (b', newBranch', overflowKey)))"

section \<open>Meta page (meta.go)\<close>

text \<open>\<open>NewMeta\<close> reads the root page id from the first 8 bytes; \<open>Sync\<close> writes it
  there.\<close>

definition Meta_RootPageID :: "Page \<Rightarrow> error + PageID" where
  "Meta_RootPageID pg =
     (case pg of ZeroPage \<Rightarrow> Inr 0 | MetaPage r \<Rightarrow> Inr r | _ \<Rightarrow> Inl Unmodelled)"

definition Meta_Sync :: "Page \<Rightarrow> PageID \<Rightarrow> error + Page" where
  "Meta_Sync pg r =
     (case pg of ZeroPage \<Rightarrow> Inr (MetaPage r) | MetaPage _ \<Rightarrow> Inr (MetaPage r)
               | _ \<Rightarrow> Inl Unmodelled)"

section \<open>B+-tree (btree.go)\<close>

text \<open>Access to the page of a buffer through its pointer: the page is read from and
  written to the frame as it is at that moment.\<close>

definition buffer_Page :: "BufferPoolManager \<Rightarrow> BufferID \<Rightarrow> Page" where
  "buffer_Page m b = Page (Buffer (frame_at m b))"

definition buffer_PageID :: "BufferPoolManager \<Rightarrow> BufferID \<Rightarrow> PageID" where
  "buffer_PageID m b = PageID (Buffer (frame_at m b))"

definition set_Page :: "BufferPoolManager \<Rightarrow> BufferID \<Rightarrow> Page \<Rightarrow> BufferPoolManager" where
  "set_Page m b pg =
     set_frame m b ((frame_at m b)\<lparr>Buffer := (Buffer (frame_at m b))\<lparr>Page := pg\<rparr>\<rparr>)"

definition set_IsDirty :: "BufferPoolManager \<Rightarrow> BufferID \<Rightarrow> BufferPoolManager" where
  "set_IsDirty m b =
     set_frame m b ((frame_at m b)\<lparr>Buffer := (Buffer (frame_at m b))\<lparr>IsDirty := True\<rparr>\<rparr>)"

text \<open>\<open>NewLeaf(buffer.Page[NodeHeaderSize:])\<close> without a look at the node type, as
  the iterator and the split do it.\<close>

definition buffer_Leaf :: "BufferPoolManager \<Rightarrow> BufferID \<Rightarrow> error + LeafBody" where
  "buffer_Leaf m b = (case buffer_Page m b of LeafPage l \<Rightarrow> Inr l | _ \<Rightarrow> Inl Unmodelled)"

definition buffer_Branch :: "BufferPoolManager \<Rightarrow> BufferID \<Rightarrow> error + BranchBody" where
  "buffer_Branch m b = (case buffer_Page m b of BranchPage br \<Rightarrow> Inr br | _ \<Rightarrow> Inl Unmodelled)"

datatype Search = SearchStart | SearchKey "byte list"

definition childPageID :: "Search \<Rightarrow> BranchBody \<Rightarrow> PageID" where
  "childPageID s branch =
     (case s of SearchStart \<Rightarrow> ChildAt branch 0 | SearchKey key \<Rightarrow> SearchChild branch key)"

definition tupleSlotID :: "Search \<Rightarrow> LeafBody \<Rightarrow> nat \<times> bool" where
  "tupleSlotID s leaf =
     (case s of SearchStart \<Rightarrow> (0, False) | SearchKey key \<Rightarrow> SearchSlotID leaf key)"

record BTree =
  MetaPageID :: PageID

definition Create :: "BufferPoolManager \<Rightarrow> (error + BTree) \<times> BufferPoolManager" where
  "Create bufmgr =
     (case CreatePage bufmgr of
        (Inl e, m1) \<Rightarrow> (Inl e, m1)
      | (Inr metaBuffer, m1) \<Rightarrow>
          (case CreatePage m1 of
             (Inl e, m2) \<Rightarrow> (Inl e, m2)
           | (Inr rootBuffer, m2) \<Rightarrow>
               let m3 = set_Page m2 rootBuffer (LeafPage Leaf_Initialize)
               in (case Meta_Sync (buffer_Page m3 metaBuffer) (buffer_PageID m3 rootBuffer) of
                     Inl e \<Rightarrow> (Inl e, m3)
                   | Inr pg \<Rightarrow>
                       let m4 = set_Page m3 metaBuffer pg;
                           m5 = set_IsDirty (set_IsDirty m4 metaBuffer) rootBuffer
                       in (Inr \<lparr>MetaPageID = buffer_PageID m5 metaBuffer\<rparr>, m5))))"

definition NewBTree :: "PageID \<Rightarrow> BTree" where
  "NewBTree metaPageID = \<lparr>MetaPageID = metaPageID\<rparr>"

definition fetchRootPage :: "BTree \<Rightarrow> BufferPoolManager \<Rightarrow> (error + BufferID) \<times> BufferPoolManager" where
  "fetchRootPage t bufmgr =
     (case FetchPage bufmgr (MetaPageID t) of
        (Inl e, m1) \<Rightarrow> (Inl e, m1)
      | (Inr metaBuffer, m1) \<Rightarrow>
          (case Meta_RootPageID (buffer_Page m1 metaBuffer) of
             Inl e \<Rightarrow> (Inl e, m1)
           | Inr rootPageID \<Rightarrow> FetchPage m1 rootPageID))"

subsection \<open>Iterator\<close>

text \<open>\<open>slotID\<close> is an \<open>int\<close>: 64 bits, read as signed.\<close>

record Iter =
  buffer :: BufferID
  slotID :: "64 word"

text \<open>\<open>Iter.get\<close>. A negative \<open>slotID\<close> is below \<open>NumPairs\<close>, and \<open>PairAt\<close> then
  computes the slot offset \<open>20 + 2 * slotID\<close> in \<open>int\<close>: it reads a header field of
  the leaf as the slot, or indexes the page below 0, or wraps. What that returns depends
  on the bytes of the page, so it is not modelled.\<close>

definition Iter_get :: "BufferPoolManager \<Rightarrow> Iter \<Rightarrow> error + Pair option" where
  "Iter_get m it =
     (case buffer_Leaf m (buffer it) of
        Inl e \<Rightarrow> Inl e
      | Inr leaf \<Rightarrow>
          if sint (slotID it) < int (NumPairs leaf) then
            (if sint (slotID it) < 0 then Inl Unmodelled
             else Inr (Some (PairAt leaf (nat (sint (slotID it))))))
          else Inr None)"

text \<open>\<open>Iter.advance\<close> changes the iterator in place, also when it returns an error.\<close>

definition Iter_advance :: "BufferPoolManager \<Rightarrow> Iter \<Rightarrow> error option \<times> Iter \<times> BufferPoolManager" where
  "Iter_advance m it =
     (let it1 = it\<lparr>slotID := slotID it + 1\<rparr>
      in case buffer_Leaf m (buffer it1) of
           Inl e \<Rightarrow> (Some e, it1, m)
         | Inr leaf \<Rightarrow>
             if sint (slotID it1) < int (NumPairs leaf) then (None, it1, m)
             else (case NextPageID leaf of
                     None \<Rightarrow> (None, it1, m)
                   | Some nextID \<Rightarrow>
                       (case FetchPage m nextID of
                          (Inl e, m1) \<Rightarrow> (Some e, it1, m1)
                        | (Inr nextBuffer, m1) \<Rightarrow>
                            (None, \<lparr>buffer = nextBuffer, slotID = 0\<rparr>, m1))))"

definition Iter_Next :: "BufferPoolManager \<Rightarrow> Iter \<Rightarrow> (error + Pair option) \<times> Iter \<times> BufferPoolManager" where
  "Iter_Next m it =
     (case Iter_get m it of
        Inl e \<Rightarrow> (Inl e, it, m)
      | Inr pair \<Rightarrow>
          (case Iter_advance m it of
             (Some e, it1, m1) \<Rightarrow> (Inl e, it1, m1)
           | (None, it1, m1) \<Rightarrow> (Inr pair, it1, m1)))"

subsection \<open>Search\<close>

text \<open>\<open>searchInternal\<close> recurses from a branch into a child; the first argument bounds
  the depth of the recursion, and \<open>None\<close> says that the bound was reached.\<close>

fun searchInternal ::
  "nat \<Rightarrow> BufferPoolManager \<Rightarrow> BufferID \<Rightarrow> Search
     \<Rightarrow> ((error + Iter) \<times> BufferPoolManager) option" where
  "searchInternal 0 m nodeBuffer search = None"
| "searchInternal (Suc fuel) m nodeBuffer search =
     (case NewNode (buffer_Page m nodeBuffer) of
        LeafNode leaf \<Rightarrow>
          let slot = fst (tupleSlotID search leaf);
              isRightMost = (NumPairs leaf = slot);
              iter = \<lparr>buffer = nodeBuffer, slotID = of_nat slot\<rparr>
          in if isRightMost then
               (case Iter_advance m iter of
                  (Some e, iter1, m1) \<Rightarrow> Some (Inl e, m1)
                | (None, iter1, m1) \<Rightarrow> Some (Inr iter1, m1))
             else Some (Inr iter, m)
      | BranchNode branch \<Rightarrow>
          (case FetchPage m (childPageID search branch) of
             (Inl e, m1) \<Rightarrow> Some (Inl e, m1)
           | (Inr childBuffer, m1) \<Rightarrow> searchInternal fuel m1 childBuffer search)
      | InvalidNode \<Rightarrow> Some (Inl ErrInvalidNodeType, m)
      | UnmodelledNode \<Rightarrow> Some (Inl Unmodelled, m))"

definition Search ::
  "nat \<Rightarrow> BTree \<Rightarrow> BufferPoolManager \<Rightarrow> Search \<Rightarrow> ((error + Iter) \<times> BufferPoolManager) option" where
  "Search fuel t bufmgr search =
     (case fetchRootPage t bufmgr of
        (Inl e, m1) \<Rightarrow> Some (Inl e, m1)
      | (Inr rootBuffer, m1) \<Rightarrow> searchInternal fuel m1 rootBuffer search)"

subsection \<open>Insert\<close>

text \<open>The \<open>overflow\<close> struct is the pair of its key and its child page id.\<close>

type_synonym overflow = "byte list \<times> PageID"

text \<open>
  The split of a full leaf in \<open>insertInternal\<close>. The views \<open>leaf\<close>, \<open>prevLeaf\<close> and
  \<open>newLeaf\<close> are slices of the pages of their buffers, so each step reads the page as
  the step before left it.
\<close>

definition fetch_prev ::
  "BufferPoolManager \<Rightarrow> PageID option \<Rightarrow> (error + BufferID option) \<times> BufferPoolManager" where
  "fetch_prev m prevPageID =
     (case prevPageID of
        None \<Rightarrow> (Inr None, m)
      | Some pid \<Rightarrow>
          (case FetchPage m pid of
             (Inl e, m1) \<Rightarrow> (Inl e, m1)
           | (Inr b, m1) \<Rightarrow> (Inr (Some b), m1)))"

definition link_prev ::
  "BufferPoolManager \<Rightarrow> BufferID option \<Rightarrow> PageID \<Rightarrow> error + BufferPoolManager" where
  "link_prev m prevBuffer newPageID =
     (case prevBuffer of
        None \<Rightarrow> Inr m
      | Some pb \<Rightarrow>
          (case buffer_Leaf m pb of
             Inl e \<Rightarrow> Inl e
           | Inr prevLeaf \<Rightarrow>
               Inr (set_IsDirty
                      (set_Page m pb (LeafPage (SetNextPageID prevLeaf (Some newPageID)))) pb)))"

definition insert_leaf_split ::
  "BufferPoolManager \<Rightarrow> BufferID \<Rightarrow> byte list \<Rightarrow> byte list
     \<Rightarrow> (error + overflow option) \<times> BufferPoolManager" where
  "insert_leaf_split m nodeBuffer key val =
     (case buffer_Leaf m nodeBuffer of
        Inl e \<Rightarrow> (Inl e, m)
      | Inr leaf \<Rightarrow>
          let prevPageID = PrevPageID leaf
          in (case fetch_prev m prevPageID of
                (Inl e, m1) \<Rightarrow> (Inl e, m1)
              | (Inr prevBuffer, m1) \<Rightarrow>
                  (case CreatePage m1 of
                     (Inl e, m2) \<Rightarrow> (Inl e, m2)
                   | (Inr newLeafBuffer, m2) \<Rightarrow>
                       if newLeafBuffer = nodeBuffer then (Inl Unmodelled, m2)
                       else
                         (case link_prev m2 prevBuffer (buffer_PageID m2 newLeafBuffer) of
                            Inl e \<Rightarrow> (Inl e, m2)
                          | Inr m3 \<Rightarrow>
                              (case buffer_Leaf m3 nodeBuffer of
                                 Inl e \<Rightarrow> (Inl e, m3)
                               | Inr leaf3 \<Rightarrow>
                                   let m4 = set_Page m3 nodeBuffer
                                              (LeafPage (SetPrevPageID leaf3
                                                 (Some (buffer_PageID m3 newLeafBuffer))));
                                       m5 = set_Page m4 newLeafBuffer (LeafPage Leaf_Initialize)
                                   in (case buffer_Leaf m5 nodeBuffer of
                                         Inl e \<Rightarrow> (Inl e, m5)
                                       | Inr leaf5 \<Rightarrow>
                                           (case Leaf_SplitInsert leaf5 Leaf_Initialize key val of
                                              Inl e \<Rightarrow> (Inl e, m5)
                                            | Inr (l', newLeaf', overflowKey) \<Rightarrow>
                                                let m6 = set_Page (set_Page m5 newLeafBuffer (LeafPage newLeaf'))
                                                           nodeBuffer (LeafPage l');
                                                    newLeaf2 = SetPrevPageID
                                                      (SetNextPageID newLeaf'
                                                         (Some (buffer_PageID m6 nodeBuffer)))
                                                      prevPageID;
                                                    m7 = set_Page m6 newLeafBuffer (LeafPage newLeaf2);
                                                    m8 = set_IsDirty (set_IsDirty m7 nodeBuffer) newLeafBuffer
                                                in (Inr (Some (overflowKey, buffer_PageID m8 newLeafBuffer)),
                                                    m8))))))))"

text \<open>The split of a full branch in \<open>insertInternal\<close>.\<close>

definition insert_branch_split ::
  "BufferPoolManager \<Rightarrow> BufferID \<Rightarrow> overflow \<Rightarrow> (error + overflow option) \<times> BufferPoolManager" where
  "insert_branch_split m nodeBuffer childOverflow =
     (case CreatePage m of
        (Inl e, m1) \<Rightarrow> (Inl e, m1)
      | (Inr newBranchBuffer, m1) \<Rightarrow>
          if newBranchBuffer = nodeBuffer then (Inl Unmodelled, m1)
          else
            (case buffer_Branch m1 nodeBuffer of
               Inl e \<Rightarrow> (Inl e, m1)
             | Inr branch \<Rightarrow>
                 (case Branch_SplitInsert branch
                         \<lparr>keys = [], children = [], branch_free_space_offset = 0\<rparr>
                         (fst childOverflow) (snd childOverflow) of
                    Inl e \<Rightarrow> (Inl e, m1)
                  | Inr (b', newBranch', overflowKey) \<Rightarrow>
                      let m2 = set_Page (set_Page m1 newBranchBuffer (BranchPage newBranch'))
                                 nodeBuffer (BranchPage b');
                          m3 = set_IsDirty (set_IsDirty m2 nodeBuffer) newBranchBuffer
                      in (Inr (Some (overflowKey, buffer_PageID m3 newBranchBuffer)), m3))))"

text \<open>\<open>insertInternal\<close>; the first argument bounds the depth of the recursion.\<close>

fun insertInternal ::
  "nat \<Rightarrow> BufferPoolManager \<Rightarrow> BufferID \<Rightarrow> byte list \<Rightarrow> byte list
     \<Rightarrow> ((error + overflow option) \<times> BufferPoolManager) option" where
  "insertInternal 0 m nodeBuffer key val = None"
| "insertInternal (Suc fuel) m nodeBuffer key val =
     (case NewNode (buffer_Page m nodeBuffer) of
        LeafNode leaf \<Rightarrow>
          (case SearchSlotID leaf key of
             (slot, True) \<Rightarrow> Some (Inl ErrDuplicateKey, m)
           | (slot, False) \<Rightarrow>
               (case Leaf_Insert leaf slot key val of
                  Inl e \<Rightarrow> Some (Inl e, m)
                | Inr (leaf', True) \<Rightarrow>
                    Some (Inr None, set_IsDirty (set_Page m nodeBuffer (LeafPage leaf')) nodeBuffer)
                | Inr (leaf', False) \<Rightarrow> Some (insert_leaf_split m nodeBuffer key val)))
      | BranchNode branch \<Rightarrow>
          let childIdx = SearchChildIdx branch key
          in (case FetchPage m (ChildAt branch childIdx) of
                (Inl e, m1) \<Rightarrow> Some (Inl e, m1)
              | (Inr childBuffer, m1) \<Rightarrow>
                  (case insertInternal fuel m1 childBuffer key val of
                     None \<Rightarrow> None
                   | Some (Inl e, m2) \<Rightarrow> Some (Inl e, m2)
                   | Some (Inr None, m2) \<Rightarrow> Some (Inr None, m2)
                   | Some (Inr (Some childOverflow), m2) \<Rightarrow>
                       (case buffer_Branch m2 nodeBuffer of
                          Inl e \<Rightarrow> Some (Inl e, m2)
                        | Inr branch2 \<Rightarrow>
                            (case Branch_Insert branch2 childIdx (fst childOverflow)
                                    (snd childOverflow) of
                               Inl e \<Rightarrow> Some (Inl e, m2)
                             | Inr (branch3, True) \<Rightarrow>
                                 Some (Inr None,
                                       set_IsDirty (set_Page m2 nodeBuffer (BranchPage branch3))
                                         nodeBuffer)
                             | Inr (branch3, False) \<Rightarrow>
                                 Some (insert_branch_split m2 nodeBuffer childOverflow)))))
      | InvalidNode \<Rightarrow> Some (Inl ErrInvalidNodeType, m)
      | UnmodelledNode \<Rightarrow> Some (Inl Unmodelled, m))"

text \<open>The new root that \<open>Insert\<close> makes when the old root has split.\<close>

definition new_root ::
  "BufferPoolManager \<Rightarrow> BufferID \<Rightarrow> PageID \<Rightarrow> overflow \<Rightarrow> error option \<times> BufferPoolManager" where
  "new_root m metaBuffer rootPageID ov =
     (case CreatePage m of
        (Inl e, m1) \<Rightarrow> (Some e, m1)
      | (Inr newRootBuffer, m1) \<Rightarrow>
          (case Branch_Initialize (fst ov) (snd ov) rootPageID of
             Inl e \<Rightarrow> (Some e, m1)
           | Inr branch \<Rightarrow>
               let m2 = set_Page m1 newRootBuffer (BranchPage branch)
               in (case Meta_Sync (buffer_Page m2 metaBuffer) (buffer_PageID m2 newRootBuffer) of
                     Inl e \<Rightarrow> (Some e, m2)
                   | Inr pg \<Rightarrow>
                       let m3 = set_Page m2 metaBuffer pg;
                           m4 = set_IsDirty (set_IsDirty m3 metaBuffer) newRootBuffer
                       in (None, m4))))"

definition Insert ::
  "nat \<Rightarrow> BTree \<Rightarrow> BufferPoolManager \<Rightarrow> byte list \<Rightarrow> byte list
     \<Rightarrow> (error option \<times> BufferPoolManager) option" where
  "Insert fuel t bufmgr key val =
     (case FetchPage bufmgr (MetaPageID t) of
        (Inl e, m1) \<Rightarrow> Some (Some e, m1)
      | (Inr metaBuffer, m1) \<Rightarrow>
          (case Meta_RootPageID (buffer_Page m1 metaBuffer) of
             Inl e \<Rightarrow> Some (Some e, m1)
           | Inr rootPageID \<Rightarrow>
               (case FetchPage m1 rootPageID of
                  (Inl e, m2) \<Rightarrow> Some (Some e, m2)
                | (Inr rootBuffer, m2) \<Rightarrow>
                    (case insertInternal fuel m2 rootBuffer key val of
                       None \<Rightarrow> None
                     | Some (Inl e, m3) \<Rightarrow> Some (Some e, m3)
                     | Some (Inr None, m3) \<Rightarrow> Some (None, m3)
                     | Some (Inr (Some ov), m3) \<Rightarrow>
                         Some (new_root m3 metaBuffer rootPageID ov)))))"

section \<open>Scenarios (btree_test.go)\<close>

text \<open>\<open>setupTestEnv\<close>: a new, empty heap file and a pool of 10 frames.\<close>

definition test_bufmgr :: BufferPoolManager where
  "test_bufmgr = NewBufferPoolManager \<lparr>heapFile = [], nextPageID = 0\<rparr> (NewBufferPool 10)"

text \<open>The inserts of a test, in order, up to the first one that returns an error.\<close>

fun insert_all ::
  "nat \<Rightarrow> BTree \<Rightarrow> BufferPoolManager \<Rightarrow> (byte list \<times> byte list) list
     \<Rightarrow> (error option \<times> BufferPoolManager) option" where
  "insert_all fuel t m [] = Some (None, m)"
| "insert_all fuel t m (kv # kvs) =
     (case Insert fuel t m (fst kv) (snd kv) of
        None \<Rightarrow> None
      | Some (Some e, m1) \<Rightarrow> Some (Some e, m1)
      | Some (None, m1) \<Rightarrow> insert_all fuel t m1 kvs)"

text \<open>A tree made by \<open>Create\<close> on the test environment after the given inserts, when all
  of them succeed.\<close>

definition after_inserts :: "(byte list \<times> byte list) list \<Rightarrow> (BTree \<times> BufferPoolManager) option" where
  "after_inserts kvs =
     (case Create test_bufmgr of
        (Inl e, m1) \<Rightarrow> None
      | (Inr t, m1) \<Rightarrow>
          (case insert_all 16 t m1 kvs of
             Some (None, m2) \<Rightarrow> Some (t, m2)
           | _ \<Rightarrow> None))"

text \<open>\<open>Search\<close> followed by one \<open>Next\<close>.\<close>

definition first_Next ::
  "BTree \<Rightarrow> BufferPoolManager \<Rightarrow> Search \<Rightarrow> (error + Pair option) option" where
  "first_Next t m search =
     (case Search 16 t m search of
        None \<Rightarrow> None
      | Some (Inl e, m1) \<Rightarrow> Some (Inl e)
      | Some (Inr it, m1) \<Rightarrow> Some (fst (Iter_Next m1 it)))"

text \<open>The loop of the tests: \<open>Next\<close> until it returns no pair, at most \<open>n\<close> times.\<close>

fun Next_all :: "nat \<Rightarrow> BufferPoolManager \<Rightarrow> Iter \<Rightarrow> (error + Pair list) option" where
  "Next_all 0 m it = None"
| "Next_all (Suc n) m it =
     (case Iter_Next m it of
        (Inl e, it1, m1) \<Rightarrow> Some (Inl e)
      | (Inr None, it1, m1) \<Rightarrow> Some (Inr [])
      | (Inr (Some p), it1, m1) \<Rightarrow>
          (case Next_all n m1 it1 of
             None \<Rightarrow> None
           | Some (Inl e) \<Rightarrow> Some (Inl e)
           | Some (Inr ps) \<Rightarrow> Some (Inr (p # ps))))"

definition scan_keys :: "nat \<Rightarrow> BTree \<Rightarrow> BufferPoolManager \<Rightarrow> Search \<Rightarrow> (error + byte list list) option" where
  "scan_keys n t m search =
     (case Search 16 t m search of
        None \<Rightarrow> None
      | Some (Inl e, m1) \<Rightarrow> Some (Inl e)
      | Some (Inr it, m1) \<Rightarrow>
          (case Next_all n m1 it of
             None \<Rightarrow> None
           | Some (Inl e) \<Rightarrow> Some (Inl e)
           | Some (Inr ps) \<Rightarrow> Some (Inr (map Key ps))))"

text \<open>The page that the pool holds for a page id, and the root node of a tree.\<close>

definition cached_Page :: "BufferPoolManager \<Rightarrow> PageID \<Rightarrow> Page option" where
  "cached_Page m pageID =
     (case pageTable m pageID of None \<Rightarrow> None | Some b \<Rightarrow> Some (buffer_Page m b))"

definition root_Page :: "BTree \<Rightarrow> BufferPoolManager \<Rightarrow> Page option" where
  "root_Page t m =
     (case cached_Page m (MetaPageID t) of
        Some (MetaPage r) \<Rightarrow> cached_Page m r
      | _ \<Rightarrow> None)"

text \<open>A value of 2000 bytes: two pairs with it fit a leaf, three do not.\<close>

definition val2000 :: "byte list" where
  "val2000 = replicate 2000 0"

definition abc :: "(byte list \<times> byte list) list" where
  "abc = [([0x61], val2000), ([0x62], val2000), ([0x63], val2000)]"

text \<open>The keys and values of \<open>TestBTreeManyInserts\<close>: \<open>key%05d\<close> and \<open>value%05d\<close>
  for \<open>i < 100\<close>, in ASCII.\<close>

definition digit :: "nat \<Rightarrow> byte" where
  "digit d = of_nat (48 + d mod 10)"

definition key5 :: "nat \<Rightarrow> byte list" where
  "key5 i = [0x6B, 0x65, 0x79] @ map (\<lambda>e. digit (i div 10 ^ e)) [4, 3, 2, 1, 0]"

definition value5 :: "nat \<Rightarrow> byte list" where
  "value5 i = [0x76, 0x61, 0x6C, 0x75, 0x65] @ map (\<lambda>e. digit (i div 10 ^ e)) [4, 3, 2, 1, 0]"

definition many_inserts :: "nat \<Rightarrow> (byte list \<times> byte list) list" where
  "many_inserts n = map (\<lambda>i. (key5 i, value5 i)) [0 ..< n]"

text \<open>What a test observes of the tree after the given inserts.\<close>

definition first_Next_after ::
  "(byte list \<times> byte list) list \<Rightarrow> Search \<Rightarrow> (error + Pair option) option" where
  "first_Next_after kvs search =
     (case after_inserts kvs of None \<Rightarrow> None | Some (t, m) \<Rightarrow> first_Next t m search)"

definition scan_after ::
  "(byte list \<times> byte list) list \<Rightarrow> nat \<Rightarrow> Search \<Rightarrow> (error + byte list list) option" where
  "scan_after kvs n search =
     (case after_inserts kvs of None \<Rightarrow> None | Some (t, m) \<Rightarrow> scan_keys n t m search)"

definition root_after :: "(byte list \<times> byte list) list \<Rightarrow> Page option" where
  "root_after kvs =
     (case after_inserts kvs of None \<Rightarrow> None | Some (t, m) \<Rightarrow> root_Page t m)"

definition page_after :: "(byte list \<times> byte list) list \<Rightarrow> PageID \<Rightarrow> Page option" where
  "page_after kvs pageID =
     (case after_inserts kvs of None \<Rightarrow> None | Some (t, m) \<Rightarrow> cached_Page m pageID)"

definition leaf_keys :: "Page option \<Rightarrow> byte list list option" where
  "leaf_keys pg = (case pg of Some (LeafPage l) \<Rightarrow> Some (map Key (pairs l)) | _ \<Rightarrow> None)"

definition is_branch :: "Page option \<Rightarrow> bool option" where
  "is_branch pg = (case pg of Some (BranchPage b) \<Rightarrow> Some True | Some _ \<Rightarrow> Some False
                            | None \<Rightarrow> None)"

text \<open>A new manager over any heap file, and the results of the first \<open>n\<close> calls of
  \<open>Next\<close> on an iterator.\<close>

definition new_bufmgr :: "DiskManager \<Rightarrow> nat \<Rightarrow> BufferPoolManager" where
  "new_bufmgr d poolSize = NewBufferPoolManager d (NewBufferPool poolSize)"

fun Next_results :: "nat \<Rightarrow> BufferPoolManager \<Rightarrow> Iter \<Rightarrow> (error + Pair option) list" where
  "Next_results 0 m it = []"
| "Next_results (Suc n) m it =
     (case Iter_Next m it of (r, it1, m1) \<Rightarrow> r # Next_results n m1 it1)"

section \<open>Properties of the codecs\<close>

lemma length_PutUint16: "length (PutUint16 v) = 2"
  by (simp add: PutUint16_def)

lemma Uint16_PutUint16: "Uint16 (PutUint16 v @ rest) = v"
proof -
  have "unat v < 2 ^ LENGTH(16)" by (rule unsigned_less)
  then have lt: "unat v < 65536" by simp
  have a: "unat (of_nat (unat v mod 256) :: byte) = unat v mod 256"
    by (simp add: unat_of_nat)
  have "unat v div 256 < 256" using lt by simp
  then have b: "unat (of_nat (unat v div 256) :: byte) = unat v div 256"
    by (simp add: unat_of_nat)
  show ?thesis
    by (simp add: Uint16_def PutUint16_def a b)
qed

lemma Uint16_PutUint16_unat:
  "n < 65536 \<Longrightarrow> unat (Uint16 (PutUint16 (of_nat n) @ rest)) = n"
  by (simp add: Uint16_PutUint16 unat_of_nat)

lemma copy_slice_replicate: "length src = n \<Longrightarrow> copy_slice (replicate n x) src = src"
  by (simp add: copy_slice_def)

lemma ToBytes_eq:
  "ToBytes p = PutUint16 (of_nat (length (Key p))) @ PutUint16 (of_nat (length (Value p)))
                 @ Key p @ Value p"
  by (simp add: ToBytes_def Let_def)

text \<open>The round trip of the pair codec holds as long as \<open>4+keyLen\<close> does not wrap in
  \<open>uint16\<close>, that is for keys of at most 65531 bytes.\<close>

lemma PairFromBytes_ToBytes:
  assumes k: "length (Key p) < 65532" and v: "length (Value p) < 65536"
  shows "PairFromBytes (ToBytes p) = Inr p"
proof -
  let ?kl = "of_nat (length (Key p)) :: 16 word"
  let ?vl = "of_nat (length (Value p)) :: 16 word"
  have uk: "unat ?kl = length (Key p)" using k by (simp add: unat_of_nat)
  have uv: "unat ?vl = length (Value p)" using v by (simp add: unat_of_nat)
  have u4: "unat (4 + ?kl) = 4 + length (Key p)"
    using k uk by (simp add: unat_word_ariths)
  have t2: "take 2 (ToBytes p) = PutUint16 ?kl"
    by (simp add: ToBytes_eq length_PutUint16)
  have d2: "take 2 (drop 2 (ToBytes p)) = PutUint16 ?vl"
    by (simp add: ToBytes_eq length_PutUint16)
  have d4: "drop 4 (ToBytes p) = Key p @ Value p"
    by (simp add: ToBytes_eq length_PutUint16)
  have len: "length (ToBytes p) = 4 + length (Key p) + length (Value p)"
    by (simp add: ToBytes_eq length_PutUint16)
  have k1: "Uint16 (take 2 (ToBytes p)) = ?kl"
    using Uint16_PutUint16 [of ?kl "[]"] by (simp add: t2)
  have v1: "Uint16 (take 2 (drop 2 (ToBytes p))) = ?vl"
    using Uint16_PutUint16 [of ?vl "[]"] by (simp add: d2)
  have dk: "drop (4 + length (Key p)) (ToBytes p) = Value p"
    using d4 by (metis append_eq_conv_conj drop_drop add.commute)
  show ?thesis
    unfolding PairFromBytes_def
    by (simp add: Let_def k1 v1 uk uv u4 len d4 dk copy_slice_def)
qed

lemma PairFromBytes_long_key:
  assumes "length k = 65532"
  shows "PairFromBytes (ToBytes \<lparr>Key = k, Value = []\<rparr>) = Inl Panic"
proof -
  let ?p = "\<lparr>Key = k, Value = []\<rparr>"
  have t2: "take 2 (ToBytes ?p) = PutUint16 65532"
    by (simp add: ToBytes_eq length_PutUint16 assms)
  have k1: "Uint16 (take 2 (ToBytes ?p)) = 65532"
    using Uint16_PutUint16 [of 65532 "[]"] by (simp add: t2)
  have len: "length (ToBytes ?p) = 65536"
    by (simp add: ToBytes_eq length_PutUint16 assms)
  have w: "unat (4 + (65532 :: 16 word)) = 0" by simp
  show ?thesis
    unfolding PairFromBytes_def
    by (simp add: Let_def k1 len w)
qed

text \<open>
  Claim C8 (pair codec round trip for keys and values shorter than \<open>2^16\<close> bytes).
  The code breaks it: for a key of 65532 bytes (and an empty value) \<open>ToBytes\<close> writes
  the length 65532, and in \<open>PairFromBytes\<close> the slice bound \<open>4+keyLen\<close> wraps to 0 in
  \<open>uint16\<close>, so that \<open>data[4:0]\<close> panics instead of returning the pair.
\<close>

theorem PairFromBytes_ToBytes_key_65532_panics:
  "PairFromBytes (ToBytes \<lparr>Key = replicate 65532 0, Value = []\<rparr>) = Inl Panic"
  by (rule PairFromBytes_long_key) (rule length_replicate)

lemma decode_elems_encode:
  "\<forall>e \<in> set t. length e < 65536 \<Longrightarrow>
   decode_elems (length t) (concat (map (\<lambda>elem. PutUint16 (of_nat (length elem)) @ elem) t)) = Inr t"
proof (induction t)
  case Nil
  then show ?case by simp
next
  case (Cons e t)
  have le: "length e < 65536" using Cons.prems by simp
  have ih: "decode_elems (length t) (concat (map (\<lambda>elem. PutUint16 (of_nat (length elem)) @ elem) t)) = Inr t"
    using Cons by simp
  have u: "unat (Uint16 (PutUint16 (of_nat (length e)) @ e @ concat (map (\<lambda>elem. PutUint16 (of_nat (length elem)) @ elem) t))) = length e"
    using le by (rule Uint16_PutUint16_unat)
  show ?case
    by (simp add: Let_def u length_PutUint16 ih copy_slice_replicate)
qed

lemma DecodeTuple_Encode:
  assumes "length t < 65536" and "\<forall>e \<in> set t. length e < 65536"
  shows "DecodeTuple (Encode t) = Inr t"
proof -
  have u: "unat (Uint16 (take 2 (Encode t))) = length t"
    using Uint16_PutUint16_unat [OF assms(1), of "[]"]
    by (simp add: Encode_def length_PutUint16)
  show ?thesis
    using decode_elems_encode [OF assms(2)]
    by (simp add: DecodeTuple_def u) (simp add: Encode_def length_PutUint16)
qed

lemma Split_Merge:
  assumes "0 \<le> n" and "n \<le> int (length t)"
  shows "\<exists>k v. SplitTuple t n = Inr (k, v) \<and> MergeTuple k v = t"
  using assms by (simp add: SplitTuple_def MergeTuple_def Let_def copy_slice_def)

lemma Decode_long_elem:
  assumes "length e = 65536"
  shows "DecodeTuple (Encode [e]) = Inr [[]]"
proof -
  have z: "(65536 :: 16 word) = 0"
    by (simp add: word_eq_iff_unsigned [where ?'a = nat])
  have e: "Encode [e] = PutUint16 1 @ PutUint16 0 @ e"
    by (simp add: Encode_def z assms)
  have u1: "Uint16 (PutUint16 1) = 1" using Uint16_PutUint16 [of 1 "[]"] by simp
  have one: "decode_elems (Suc 0) (PutUint16 0 @ e) = Inr [[]]"
    by (simp add: Let_def Uint16_PutUint16 length_PutUint16 copy_slice_def)
  show ?thesis
    by (simp add: DecodeTuple_def e length_PutUint16 u1 one del: decode_elems.simps)
qed

text \<open>
  Claim C9 as stated (\<open>DecodeTuple (Encode t) = t\<close> for every tuple) fails: the element
  length is written as a \<open>uint16\<close>, so an element of 65536 bytes is written with length 0
  and decoded as the empty byte string.
\<close>

theorem DecodeTuple_Encode_long_elem_counterexample:
  "DecodeTuple (Encode [replicate 65536 0]) \<noteq> Inr [replicate 65536 0]"
proof -
  have l: "length (replicate 65536 (0::byte)) = 65536" by (rule length_replicate)
  have "replicate 65536 (0::byte) \<noteq> []"
    using l by (metis list.size(3) zero_neq_numeral)
  then show ?thesis
    using Decode_long_elem [OF l] by simp
qed

text \<open>
  Claim C9, amended: for every tuple with fewer than \<open>2^16\<close> elements, each shorter than
  \<open>2^16\<close> bytes, decoding the encoding gives the tuple back; and for every tuple \<open>t\<close> and
  every \<open>n\<close> with \<open>0 \<le> n \<le> |t|\<close>, \<open>SplitTuple\<close> returns a key and a value that
  \<open>MergeTuple\<close> joins into \<open>t\<close>.
\<close>

theorem Tuple_round_trips:
  "(length t < 65536 \<and> (\<forall>e \<in> set t. length e < 65536) \<longrightarrow> DecodeTuple (Encode t) = Inr t)
   \<and> (0 \<le> n \<and> n \<le> int (length t) \<longrightarrow>
        (\<exists>k v. SplitTuple t n = Inr (k, v) \<and> MergeTuple k v = t))"
  using DecodeTuple_Encode [of t] Split_Merge [of n t] by blast

theorem Tuple_round_trips_witness:
  "length [[1], [2, 3 :: byte]] < 65536
   \<and> length [1 :: byte] < 65536 \<and> length [2, 3 :: byte] < 65536
   \<and> DecodeTuple (Encode [[1], [2, 3]]) = Inr [[1], [2, 3]]
   \<and> (0::int) \<le> 1 \<and> (1::int) \<le> int (length [[1], [2, 3 :: byte]])
   \<and> (\<exists>k v. SplitTuple [[1], [2, 3]] 1 = Inr (k, v) \<and> MergeTuple k v = [[1], [2, 3]])"
  using Tuple_round_trips [of "[[1], [2, 3]]" 1] by simp

section \<open>Clock-sweep eviction\<close>

lemma Evict_loop_success:
  "Evict_loop p c = (Inr i, p') \<Longrightarrow>
   i < length (frames p') \<and> UsageCount (frames p' ! i) = 0 \<and> nextVictimID p' = i"
proof (induction p c rule: Evict_loop.induct)
  case (1 p c)
  show ?case
  proof (cases "nextVictimID p \<ge> length (frames p)")
    case True
    with "1.prems" show ?thesis by (simp add: Evict_loop.simps [of p c])
  next
    case inr: False
    show ?thesis
    proof (cases "UsageCount (frames p ! nextVictimID p) = 0")
      case True
      with inr "1.prems" show ?thesis by (auto simp add: Evict_loop.simps [of p c])
    next
      case used: False
      show ?thesis
      proof (cases "refCount (Buffer (frames p ! nextVictimID p)) = 0")
        case True
        with inr used "1.prems" "1.IH"(1) show ?thesis
          by (simp add: Evict_loop.simps [of p c])
      next
        case pin: False
        show ?thesis
        proof (cases "c + 1 \<ge> length (frames p)")
          case True
          with inr used pin "1.prems" show ?thesis by (simp add: Evict_loop.simps [of p c])
        next
          case False
          with inr used pin "1.prems" "1.IH"(2) show ?thesis
            by (simp add: Evict_loop.simps [of p c])
        qed
      qed
    qed
  qed
qed

lemma Evict_loop_all_pinned:
  "\<forall>f \<in> set (frames p). pinned f \<Longrightarrow> nextVictimID p < length (frames p) \<Longrightarrow>
   \<exists>p'. Evict_loop p c = (Inl ErrNoFreeBuffer, p') \<and> frames p' = frames p
        \<and> nextVictimID p' < length (frames p')
        "
proof (induction p c rule: Evict_loop.induct)
  case (1 p c)
  have v: "nextVictimID p < length (frames p)" using "1.prems" by simp
  have pf: "pinned (frames p ! nextVictimID p)" using "1.prems" v by simp
  show ?case
  proof (cases "c + 1 \<ge> length (frames p)")
    case True
    with v pf show ?thesis by (simp add: Evict_loop.simps [of p c] pinned_def)
  next
    case False
    let ?p2 = "p\<lparr>nextVictimID := (nextVictimID p + 1) mod length (frames p)\<rparr>"
    have "\<exists>p'. Evict_loop ?p2 (c + 1) = (Inl ErrNoFreeBuffer, p') \<and> frames p' = frames ?p2
        \<and> nextVictimID p' < length (frames p')"
    proof -
      have "0 < length (frames p)" by (rule le_less_trans [OF le0 v])
      then have "(nextVictimID p + 1) mod length (frames p) < length (frames p)"
        by (rule mod_less_divisor)
      then show ?thesis
        using "1.IH"(2) [OF _ _ _ False] v pf "1.prems"(1) by (simp add: pinned_def)
    qed
    with v pf False show ?thesis by (simp add: Evict_loop.simps [of p c] pinned_def)
  qed
qed

lemma cursor_cover:
  assumes "v < n" and "i < n" and "i \<noteq> v"
  shows "\<exists>j < n - 1. (v + (n - 1 - j)) mod n = (i::nat)"
proof (cases "v < i")
  case True
  let ?j = "n - 1 - (i - v)"
  have "?j < n - 1" using assms True by arith
  moreover have "v + (n - 1 - ?j) = i" using assms True by arith
  ultimately show ?thesis using assms(2) by (metis mod_less)
next
  case False
  let ?j = "v - i - 1"
  have "?j < n - 1" using assms False by arith
  moreover have "v + (n - 1 - ?j) = i + n" using assms False by arith
  ultimately show ?thesis using assms(2) by (metis mod_add_self2 mod_less)
qed

lemma cursor_shift0:
  assumes "v < n"
  shows "((v + 1) mod n + (n - 1)) mod n = (v::nat)"
proof -
  have "((v + 1) mod n + (n - 1)) mod n = (v + 1 + (n - 1)) mod n"
    by (rule mod_add_left_eq)
  also have "v + 1 + (n - 1) = v + n" using assms by arith
  finally show ?thesis using assms by simp
qed

lemma cursor_shiftS:
  assumes "Suc k < n"
  shows "((v + 1) mod n + (n - 1 - Suc k)) mod n = (v + (n - 1 - k)) mod (n::nat)"
proof -
  have "((v + 1) mod n + (n - 1 - Suc k)) mod n = (v + 1 + (n - 1 - Suc k)) mod n"
    by (rule mod_add_left_eq)
  also have "v + 1 + (n - 1 - Suc k) = v + (n - 1 - k)" using assms by arith
  finally show ?thesis .
qed

lemma Evict_loop_failure_pinned:
  "Evict_loop p c = (Inl ErrNoFreeBuffer, p') \<Longrightarrow>
   nextVictimID p < length (frames p) \<Longrightarrow> c < length (frames p) \<Longrightarrow>
   \<forall>j<c. pinned (frames p ! ((nextVictimID p + (length (frames p) - 1 - j)) mod length (frames p))) \<Longrightarrow>
   \<forall>i < length (frames p). pinned (frames p ! i)"
proof (induction p c rule: Evict_loop.induct)
  case (1 p c)
  let ?n = "length (frames p)"
  let ?v = "nextVictimID p"
  have v: "?v < ?n" by (rule "1.prems"(2))
  have npos: "0 < ?n" by (rule le_less_trans [OF le0 v])
  have inr: "\<not> ?n \<le> ?v" using v by simp
  show ?case
  proof (cases "UsageCount (frames p ! ?v) = 0")
    case True
    with inr "1.prems"(1) show ?thesis by (simp add: Evict_loop.simps [of p c])
  next
    case used: False
    show ?thesis
    proof (cases "refCount (Buffer (frames p ! ?v)) = 0")
      case True
      let ?p1 = "p\<lparr>frames := (frames p)[?v := (frames p ! ?v)\<lparr>UsageCount := UsageCount (frames p ! ?v) - 1\<rparr>],
                   nextVictimID := (?v + 1) mod ?n\<rparr>"
      have e: "Evict_loop ?p1 0 = (Inl ErrNoFreeBuffer, p')"
        using inr used True "1.prems"(1) by (simp add: Evict_loop.simps [of p c])
      have v1: "nextVictimID ?p1 < length (frames ?p1)"
        using npos by simp
      have al: "\<forall>i < length (frames ?p1). pinned (frames ?p1 ! i)"
        using "1.IH"(1) [OF inr used True e v1] npos by simp
      have "pinned (frames ?p1 ! ?v)" using al [rule_format, of ?v] v by simp
      then show ?thesis using v True by (simp add: pinned_def)
    next
      case pin: False
      have pv: "pinned (frames p ! ?v)" using used pin by (simp add: pinned_def)
      show ?thesis
      proof (cases "c + 1 \<ge> ?n")
        case True
        then have c: "c = ?n - 1" using "1.prems"(3) by arith
        show ?thesis
        proof (intro allI impI)
          fix i assume i: "i < ?n"
          show "pinned (frames p ! i)"
          proof (cases "i = ?v")
            case True then show ?thesis using pv by simp
          next
            case False
            then obtain j where "j < ?n - 1" and "(?v + (?n - 1 - j)) mod ?n = i"
              using cursor_cover [OF v i] by blast
            then show ?thesis using "1.prems"(4) c by auto
          qed
        qed
      next
        case False
        let ?p2 = "p\<lparr>nextVictimID := (?v + 1) mod ?n\<rparr>"
        have e: "Evict_loop ?p2 (c + 1) = (Inl ErrNoFreeBuffer, p')"
          using inr used pin False "1.prems"(1) by (simp add: Evict_loop.simps [of p c])
        have v2: "nextVictimID ?p2 < length (frames ?p2)" using npos by simp
        have c2: "c + 1 < length (frames ?p2)" using False by simp
        have inv: "\<forall>j<c + 1. pinned (frames ?p2 ! ((nextVictimID ?p2 + (length (frames ?p2) - 1 - j)) mod length (frames ?p2)))"
        proof (intro allI impI)
          fix j assume j: "j < c + 1"
          show "pinned (frames ?p2 ! ((nextVictimID ?p2 + (length (frames ?p2) - 1 - j)) mod length (frames ?p2)))"
          proof (cases j)
            case 0
            then show ?thesis using pv cursor_shift0 [OF v] by simp
          next
            case (Suc k)
            have k: "k < c" using j Suc by simp
            have "Suc k < ?n" using j Suc False by simp
            then have "((?v + 1) mod ?n + (?n - 1 - Suc k)) mod ?n = (?v + (?n - 1 - k)) mod ?n"
              by (rule cursor_shiftS)
            then show ?thesis using "1.prems"(4) k Suc by simp
          qed
        qed
        have "\<forall>i < length (frames ?p2). pinned (frames ?p2 ! i)"
          by (rule "1.IH"(2) [OF inr used pin False e v2 c2 inv])
        then show ?thesis by simp
      qed
    qed
  qed
qed

lemma Evict_loop_frames:
  "Evict_loop p c = (r, p') \<Longrightarrow>
   length (frames p') = length (frames p) \<and>
   (\<forall>j < length (frames p).
      Buffer (frames p' ! j) = Buffer (frames p ! j) \<and>
      (refCount (Buffer (frames p ! j)) \<noteq> 0 \<longrightarrow> frames p' ! j = frames p ! j))"
proof (induction p c arbitrary: r p' rule: Evict_loop.induct)
  case (1 p c)
  let ?n = "length (frames p)"
  let ?v = "nextVictimID p"
  show ?case
  proof (cases "?n \<le> ?v")
    case True
    with "1.prems" show ?thesis by (simp add: Evict_loop.simps [of p c])
  next
    case inr: False
    show ?thesis
    proof (cases "UsageCount (frames p ! ?v) = 0")
      case True
      with inr "1.prems" show ?thesis by (simp add: Evict_loop.simps [of p c])
    next
      case used: False
      show ?thesis
      proof (cases "refCount (Buffer (frames p ! ?v)) = 0")
        case True
        let ?p1 = "p\<lparr>frames := (frames p)[?v := (frames p ! ?v)\<lparr>UsageCount := UsageCount (frames p ! ?v) - 1\<rparr>],
                     nextVictimID := (?v + 1) mod ?n\<rparr>"
        have e: "Evict_loop ?p1 0 = (r, p')"
          using inr used True "1.prems" by (simp add: Evict_loop.simps [of p c])
        have ih: "length (frames p') = length (frames ?p1) \<and>
                  (\<forall>j < length (frames ?p1).
                     Buffer (frames p' ! j) = Buffer (frames ?p1 ! j) \<and>
                     (refCount (Buffer (frames ?p1 ! j)) \<noteq> 0 \<longrightarrow> frames p' ! j = frames ?p1 ! j))"
          by (rule "1.IH"(1) [OF inr used True e])
        show ?thesis
        proof (intro conjI allI impI)
          show "length (frames p') = ?n" using ih by simp
        next
          fix j assume j: "j < ?n"
          show "Buffer (frames p' ! j) = Buffer (frames p ! j)"
            using ih j by (cases "j = ?v") auto
        next
          fix j assume j: "j < ?n" and r: "refCount (Buffer (frames p ! j)) \<noteq> 0"
          then have "j \<noteq> ?v" using True by auto
          then show "frames p' ! j = frames p ! j" using ih j r by auto
        qed
      next
        case pin: False
        show ?thesis
        proof (cases "c + 1 \<ge> ?n")
          case True
          with inr used pin "1.prems" show ?thesis by (simp add: Evict_loop.simps [of p c])
        next
          case False
          let ?p2 = "p\<lparr>nextVictimID := (?v + 1) mod ?n\<rparr>"
          have e: "Evict_loop ?p2 (c + 1) = (r, p')"
            using inr used pin False "1.prems" by (simp add: Evict_loop.simps [of p c])
          show ?thesis using "1.IH"(2) [OF inr used pin False e] by simp
        qed
      qed
    qed
  qed
qed

lemma Evict_loop_no_panic:
  "nextVictimID p < length (frames p) \<Longrightarrow> Evict_loop p c = (Inl e, p') \<Longrightarrow> e = ErrNoFreeBuffer"
proof (induction p c arbitrary: e p' rule: Evict_loop.induct)
  case (1 p c)
  let ?n = "length (frames p)"
  let ?v = "nextVictimID p"
  have v: "?v < ?n" by (rule "1.prems"(1))
  have npos: "0 < ?n" by (rule le_less_trans [OF le0 v])
  have inr: "\<not> ?n \<le> ?v" using v by simp
  have nv: "(?v + 1) mod ?n < ?n" using npos by (rule mod_less_divisor)
  show ?case
  proof (cases "UsageCount (frames p ! ?v) = 0")
    case True
    with inr "1.prems"(2) show ?thesis by (simp add: Evict_loop.simps [of p c])
  next
    case used: False
    show ?thesis
    proof (cases "refCount (Buffer (frames p ! ?v)) = 0")
      case True
      let ?p1 = "p\<lparr>frames := (frames p)[?v := (frames p ! ?v)\<lparr>UsageCount := UsageCount (frames p ! ?v) - 1\<rparr>],
                   nextVictimID := (?v + 1) mod ?n\<rparr>"
      have e: "Evict_loop ?p1 0 = (Inl e, p')"
        using inr used True "1.prems"(2) by (simp add: Evict_loop.simps [of p c])
      have v1: "nextVictimID ?p1 < length (frames ?p1)" using nv by simp
      show ?thesis by (rule "1.IH"(1) [OF inr used True v1 e])
    next
      case pin: False
      show ?thesis
      proof (cases "c + 1 \<ge> ?n")
        case True
        with inr used pin "1.prems"(2) show ?thesis by (simp add: Evict_loop.simps [of p c])
      next
        case False
        let ?p2 = "p\<lparr>nextVictimID := (?v + 1) mod ?n\<rparr>"
        have e: "Evict_loop ?p2 (c + 1) = (Inl e, p')"
          using inr used pin False "1.prems"(2) by (simp add: Evict_loop.simps [of p c])
        have v2: "nextVictimID ?p2 < length (frames ?p2)" using nv by simp
        show ?thesis by (rule "1.IH"(2) [OF inr used pin False v2 e])
      qed
    qed
  qed
qed

lemma Evict_loop_cursor:
  "nextVictimID p < length (frames p) \<Longrightarrow> Evict_loop p c = (r, p') \<Longrightarrow>
   nextVictimID p' < length (frames p')"
proof (induction p c arbitrary: r p' rule: Evict_loop.induct)
  case (1 p c)
  let ?n = "length (frames p)"
  let ?v = "nextVictimID p"
  have v: "?v < ?n" by (rule "1.prems"(1))
  have npos: "0 < ?n" by (rule le_less_trans [OF le0 v])
  have inr: "\<not> ?n \<le> ?v" using v by simp
  have nv: "(?v + 1) mod ?n < ?n" using npos by (rule mod_less_divisor)
  show ?case
  proof (cases "UsageCount (frames p ! ?v) = 0")
    case True
    with inr v "1.prems"(2) show ?thesis by (auto simp add: Evict_loop.simps [of p c])
  next
    case used: False
    show ?thesis
    proof (cases "refCount (Buffer (frames p ! ?v)) = 0")
      case True
      let ?p1 = "p\<lparr>frames := (frames p)[?v := (frames p ! ?v)\<lparr>UsageCount := UsageCount (frames p ! ?v) - 1\<rparr>],
                   nextVictimID := (?v + 1) mod ?n\<rparr>"
      have e: "Evict_loop ?p1 0 = (r, p')"
        using inr used True "1.prems"(2) by (simp add: Evict_loop.simps [of p c])
      have v1: "nextVictimID ?p1 < length (frames ?p1)" using nv by simp
      show ?thesis by (rule "1.IH"(1) [OF inr used True v1 e])
    next
      case pin: False
      show ?thesis
      proof (cases "c + 1 \<ge> ?n")
        case True
        with inr used pin v "1.prems"(2) show ?thesis by (auto simp add: Evict_loop.simps [of p c])
      next
        case False
        let ?p2 = "p\<lparr>nextVictimID := (?v + 1) mod ?n\<rparr>"
        have e: "Evict_loop ?p2 (c + 1) = (r, p')"
          using inr used pin False "1.prems"(2) by (simp add: Evict_loop.simps [of p c])
        have v2: "nextVictimID ?p2 < length (frames ?p2)" using nv by simp
        show ?thesis by (rule "1.IH"(2) [OF inr used pin False v2 e])
      qed
    qed
  qed
qed

text \<open>The cursor stays inside a pool that has a frame.\<close>

lemma Evict_cursor_invariant:
  "(0 < n \<longrightarrow> nextVictimID (NewBufferPool n) < length (frames (NewBufferPool n)))
   \<and> (nextVictimID p < length (frames p) \<longrightarrow>
        nextVictimID (snd (Evict p)) < length (frames (snd (Evict p))))"
proof -
  have "nextVictimID (snd (Evict p)) < length (frames (snd (Evict p)))"
    if "nextVictimID p < length (frames p)"
    using Evict_loop_cursor [OF that, of 0 "fst (Evict p)" "snd (Evict p)"]
    by (simp add: Evict_def)
  then show ?thesis by (simp add: NewBufferPool_def)
qed

text \<open>
  Claim C7 as stated fails on a pool without frames: no frame is there that is not
  pinned, but \<open>Evict\<close> neither returns an index nor fails with \<open>ErrNoFreeBuffer\<close>; it
  indexes \<open>p.frames[0]\<close> and panics.
\<close>

theorem Evict_empty_pool_counterexample:
  "frames (NewBufferPool 0) = [] \<and> Evict (NewBufferPool 0) = (Inl Panic, NewBufferPool 0)"
  by (simp add: Evict_def Evict_loop.simps NewBufferPool_def)

text \<open>
  Claim C7, amended to pools whose cursor is inside the pool (the first lemma above: a
  pool made by \<open>NewBufferPool\<close> with a positive size is one, and \<open>Evict\<close> keeps it so).
  Whenever \<open>Evict\<close> returns an index, the frame at that index has \<open>UsageCount = 0\<close>
  and \<open>nextVictimID\<close> is that index. With the cursor inside the pool, \<open>Evict\<close>
  fails with \<open>ErrNoFreeBuffer\<close> exactly when a full turn of the clock meets only
  frames that are in use and pinned, that is when every frame has \<open>UsageCount \<noteq> 0\<close>
  and \<open>refCount \<noteq> 0\<close> (the tests of the code; \<open>refCount\<close> is only ever set to 1 and
  incremented, so this is the claim's \<open>ref_count > 0\<close>), and it returns an index
  exactly when some frame is not so: it never panics. It keeps the number of frames and
  the cursor inside the pool, changes no buffer, and changes no frame whose
  \<open>refCount\<close> is not 0.
\<close>

theorem Evict_clock_sweep:
  "(Evict p = (Inr i, p') \<longrightarrow>
      i < length (frames p') \<and> UsageCount (frames p' ! i) = 0 \<and> nextVictimID p' = i)
   \<and> (nextVictimID p < length (frames p) \<longrightarrow>
        ((\<exists>q. Evict p = (Inl ErrNoFreeBuffer, q))
           \<longleftrightarrow> (\<forall>f \<in> set (frames p). UsageCount f \<noteq> 0 \<and> refCount (Buffer f) \<noteq> 0))
        \<and> ((\<exists>j q. Evict p = (Inr j, q))
           \<longleftrightarrow> \<not> (\<forall>f \<in> set (frames p). UsageCount f \<noteq> 0 \<and> refCount (Buffer f) \<noteq> 0))
        \<and> length (frames (snd (Evict p))) = length (frames p)
        \<and> nextVictimID (snd (Evict p)) < length (frames p)
        \<and> (\<forall>k < length (frames p).
              Buffer (frames (snd (Evict p)) ! k) = Buffer (frames p ! k)
              \<and> (refCount (Buffer (frames p ! k)) \<noteq> 0 \<longrightarrow>
                    frames (snd (Evict p)) ! k = frames p ! k)))"
proof -
  let ?all = "\<forall>f \<in> set (frames p). UsageCount f \<noteq> 0 \<and> refCount (Buffer f) \<noteq> 0"
  have a: "Evict p = (Inr i, p') \<longrightarrow>
      i < length (frames p') \<and> UsageCount (frames p' ! i) = 0 \<and> nextVictimID p' = i"
    unfolding Evict_def using Evict_loop_success by blast
  have fr: "length (frames (snd (Evict p))) = length (frames p) \<and>
        (\<forall>k < length (frames p).
              Buffer (frames (snd (Evict p)) ! k) = Buffer (frames p ! k)
              \<and> (refCount (Buffer (frames p ! k)) \<noteq> 0 \<longrightarrow>
                    frames (snd (Evict p)) ! k = frames p ! k))"
    using Evict_loop_frames [of p 0 "fst (Evict p)" "snd (Evict p)"] by (simp add: Evict_def)
  have b: "((\<exists>q. Evict p = (Inl ErrNoFreeBuffer, q)) \<longleftrightarrow> ?all)
           \<and> ((\<exists>j q. Evict p = (Inr j, q)) \<longleftrightarrow> \<not> ?all)
           \<and> nextVictimID (snd (Evict p)) < length (frames p)"
    if v: "nextVictimID p < length (frames p)"
  proof -
    have npos: "0 < length (frames p)" by (rule le_less_trans [OF le0 v])
    have fail_all: "?all" if q: "Evict p = (Inl ErrNoFreeBuffer, q)" for q
    proof -
      have q': "Evict_loop p 0 = (Inl ErrNoFreeBuffer, q)" using q by (simp add: Evict_def)
      have "\<forall>i < length (frames p). pinned (frames p ! i)"
        by (rule Evict_loop_failure_pinned [OF q' v npos]) simp
      then show ?thesis by (auto simp add: in_set_conv_nth pinned_def)
    qed
    have all_fail: "\<exists>q. Evict p = (Inl ErrNoFreeBuffer, q)" if "?all"
    proof -
      have "\<forall>f \<in> set (frames p). pinned f" using that by (simp add: pinned_def)
      then show ?thesis
        unfolding Evict_def using Evict_loop_all_pinned [OF _ v, of 0] by blast
    qed
    have cases: "(\<exists>q. Evict p = (Inl ErrNoFreeBuffer, q)) \<or> (\<exists>j q. Evict p = (Inr j, q))"
    proof (cases "fst (Evict p)")
      case (Inl e)
      then have "Evict_loop p 0 = (Inl e, snd (Evict p))"
        by (simp add: Evict_def prod_eq_iff)
      then have "e = ErrNoFreeBuffer" by (rule Evict_loop_no_panic [OF v])
      then show ?thesis using Inl by (metis prod.collapse)
    next
      case (Inr j)
      then show ?thesis by (metis prod.collapse)
    qed
    have c: "nextVictimID (snd (Evict p)) < length (frames p)"
      using Evict_loop_cursor [OF v, of 0 "fst (Evict p)" "snd (Evict p)"] fr
      by (simp add: Evict_def)
    have succ_notall: "\<not> ?all" if "Evict p = (Inr j, q)" for j q
    proof
      assume ?all
      then obtain q' where "Evict p = (Inl ErrNoFreeBuffer, q')" using all_fail by blast
      with that show False by simp
    qed
    have notall_succ: "\<exists>j q. Evict p = (Inr j, q)" if "\<not> ?all"
      using cases fail_all that by blast
    have i1: "(\<exists>q. Evict p = (Inl ErrNoFreeBuffer, q)) \<longleftrightarrow> ?all"
      using fail_all all_fail by blast
    have i2: "(\<exists>j q. Evict p = (Inr j, q)) \<longleftrightarrow> \<not> ?all"
      using succ_notall notall_succ by blast
    show ?thesis using i1 i2 c by (intro conjI)
  qed
  show ?thesis using a b fr by blast
qed

theorem Evict_clock_sweep_witness:
  "nextVictimID sweep_pool < length (frames sweep_pool)
   \<and> UsageCount (frames sweep_pool ! 0) = 1 \<and> refCount (Buffer (frames sweep_pool ! 0)) = 0
   \<and> Evict sweep_pool = (Inr 0, \<lparr>frames = [used_frame 0 0, used_frame 1 1], nextVictimID = 0\<rparr>)
   \<and> nextVictimID pinned_pool < length (frames pinned_pool)
   \<and> UsageCount (frames pinned_pool ! 0) = 1 \<and> refCount (Buffer (frames pinned_pool ! 0)) = 1
   \<and> UsageCount (frames pinned_pool ! 1) = 1 \<and> refCount (Buffer (frames pinned_pool ! 1)) = 1
   \<and> fst (Evict pinned_pool) = Inl ErrNoFreeBuffer
   \<and> frames (snd (Evict pinned_pool)) = frames pinned_pool"
proof -
  have s: "Evict sweep_pool = (Inr 0, \<lparr>frames = [used_frame 0 0, used_frame 1 1], nextVictimID = 0\<rparr>)"
    by (simp add: Evict_def Evict_loop.simps sweep_pool_def used_frame_def)
  have s0: "UsageCount (frames (snd (Evict sweep_pool)) ! 0) = 0
            \<and> nextVictimID (snd (Evict sweep_pool)) = 0"
    using Evict_clock_sweep [of sweep_pool 0 "snd (Evict sweep_pool)"] s by simp
  have ph: "nextVictimID pinned_pool < length (frames pinned_pool)"
    by (simp add: pinned_pool_def)
  have pa: "\<forall>f \<in> set (frames pinned_pool). UsageCount f \<noteq> 0 \<and> refCount (Buffer f) \<noteq> 0"
    by (simp add: pinned_pool_def used_frame_def)
  have "\<exists>q. Evict pinned_pool = (Inl ErrNoFreeBuffer, q)"
    using Evict_clock_sweep [of pinned_pool] ph pa by blast
  then have pf: "fst (Evict pinned_pool) = Inl ErrNoFreeBuffer" by auto
  have "\<forall>k < length (frames pinned_pool).
          refCount (Buffer (frames pinned_pool ! k)) \<noteq> 0 \<longrightarrow>
          frames (snd (Evict pinned_pool)) ! k = frames pinned_pool ! k"
    using Evict_clock_sweep [of pinned_pool] ph by blast
  moreover have "length (frames (snd (Evict pinned_pool))) = length (frames pinned_pool)"
    using Evict_clock_sweep [of pinned_pool] ph by blast
  ultimately have pq: "frames (snd (Evict pinned_pool)) = frames pinned_pool"
    by (intro nth_equalityI) (auto simp add: pinned_pool_def used_frame_def less_Suc_eq numeral_2_eq_2)
  show ?thesis
    using s s0 pf pq by (simp add: sweep_pool_def pinned_pool_def used_frame_def)
qed

section \<open>The tree after a leaf split\<close>

text \<open>Evaluation of the scenarios: the definitions are unfolded on the concrete inputs,
  the 2000-byte value stays closed and only its length is used.\<close>

lemma length_val2000: "length val2000 = 2000"
  by (simp add: val2000_def)

lemma length_ToBytes: "length (ToBytes p) = 4 + length (Key p) + length (Value p)"
  by (simp add: ToBytes_def PutUint16_def Let_def)

lemma replicate_10: "replicate 10 x = [x, x, x, x, x, x, x, x, x, x]"
  by (simp add: numeral_eq_Suc)

lemmas searchInternal_numeral =
  searchInternal.simps(2) [of "pred_numeral k" for k, folded numeral_eq_Suc]

lemmas insertInternal_numeral =
  insertInternal.simps(2) [of "pred_numeral k" for k, folded numeral_eq_Suc]

lemmas Next_all_numeral =
  Next_all.simps(2) [of "pred_numeral k" for k, folded numeral_eq_Suc]

lemmas tree_eval =
  searchInternal_numeral insertInternal_numeral Next_all_numeral
  Create_def CreatePage_def FetchPage_def Evict_def Evict_loop.simps write_back_def
  AllocatePage_def frame_at_def set_frame_def set_Page_def set_IsDirty_def buffer_Page_def
  buffer_PageID_def buffer_Leaf_def buffer_Branch_def Meta_Sync_def Meta_RootPageID_def
  Leaf_Initialize_def body_len_def PageSize_def NodeHeaderSize_def InvalidPageID_def
  NewNode_def Insert_def new_root_def insert_leaf_split_def insert_branch_split_def
  fetch_prev_def link_prev_def Leaf_Insert_def Leaf_freeSpace_def slotOffset_def
  LeafHeaderSize_def LeafSlotSize_def NumPairs_def PairAt_def SearchSlotID_def
  SearchSlotID_loop.simps Leaf_SplitInsert_def PrevPageID_def NextPageID_def
  SetPrevPageID_def SetNextPageID_def Branch_Initialize_def build_branch_def
  key_records_size_def childOffset_def BranchHeaderSize_def BranchSlotSize_def
  BranchChildSize_def maxKeys_def NumChildren_def NumKeys_def KeyAt_def ChildAt_def
  SearchChildIdx_def SearchChildIdx_loop.simps SearchChild_def Branch_freeSpace_def
  Branch_Insert_def Branch_SplitInsert_def Search_def fetchRootPage_def childPageID_def
  tupleSlotID_def Iter_get_def Iter_advance_def Iter_Next_def
  NewBufferPoolManager_def NewBufferPool_def test_bufmgr_def after_inserts_def
  first_Next_def scan_keys_def cached_Page_def root_Page_def
  first_Next_after_def scan_after_def root_after_def page_after_def leaf_keys_def
  is_branch_def length_val2000 length_ToBytes replicate_10 Let_def

lemmas weak_congs =
  if_weak_cong sum.case_cong_weak prod.case_cong_weak option.case_cong_weak
  Node.case_cong_weak Page.case_cong_weak Search.case_cong_weak let_weak_cong
  list.case_cong_weak

text \<open>
  Claim C1 (completeness: every inserted pair is found by \<open>Search(Key(k))\<close>). The code
  breaks it. On a tree made by \<open>Create\<close>, the keys \<open>a\<close>, \<open>b\<close>, \<open>c\<close> are inserted, each
  with a value of 2000 bytes; the three inserts succeed and the third splits the root
  leaf. \<open>Leaf.SplitInsert\<close> hands up the last key of the lower half, \<open>a\<close>, as the
  separator, and \<open>SearchChildIdx\<close> sends a key equal to the separator to the right
  child: \<open>Search(Key(a))\<close> lands in the leaf of \<open>b\<close> and \<open>c\<close>, and the first \<open>Next\<close>
  yields the pair of \<open>b\<close>.
\<close>

theorem Search_inserted_key_after_split:
  "first_Next_after abc (SearchKey [0x61])
     = Some (Inr (Some \<lparr>Key = [0x62], Value = val2000\<rparr>))"
  by (simp add: abc_def tree_eval cong: weak_congs)

text \<open>
  Claim C2 (separator law: every key below child \<open>c_i\<close> is strictly less than the
  separator \<open>k_i\<close>). The code breaks it in the same tree: the root is a branch with the
  single separator \<open>a\<close> and the children 2 and 1, the leaf of page 2 (child \<open>c_0\<close>)
  holds the key \<open>a\<close>, and \<open>a\<close> is not less than \<open>a\<close>.
\<close>

theorem separator_not_above_left_child:
  "root_after abc
     = Some (BranchPage \<lparr>keys = [[0x61]], children = [2, 1], branch_free_space_offset = 4085\<rparr>)
   \<and> leaf_keys (page_after abc 2) = Some [[0x61]]
   \<and> leaf_keys (page_after abc 1) = Some [[0x62], [0x63]]
   \<and> bytes_Compare [0x61] [0x61] = 0"
  by (simp add: abc_def tree_eval cong: weak_congs)

text \<open>
  Claim C3 (iterating from \<open>Start\<close> yields exactly the inserted keys, ascending). The
  code breaks it: after the inserts of \<open>a\<close>, \<open>b\<close>, \<open>c\<close>, \<open>d\<close> (2000-byte values, all four
  succeed) the scan from \<open>Start\<close> yields \<open>a\<close>, \<open>c\<close>, \<open>d\<close>; the key \<open>b\<close> is missing.
  The first split leaves the leaf of \<open>b\<close>, \<open>c\<close> without its \<open>prev\<close> pointer, because
  \<open>SplitInsert\<close> calls \<open>Initialize\<close> on it after the pointer was set; the second split
  therefore does not link the new leaf of \<open>b\<close> behind the leaf of \<open>a\<close>.
\<close>

theorem scan_from_Start_misses_key:
  "scan_after (abc @ [([0x64], val2000)]) 10 SearchStart
     = Some (Inr [[0x61], [0x63], [0x64]])"
  by (simp add: abc_def tree_eval cong: weak_congs)

text \<open>
  Claim C4 (inserting a key that is present returns \<open>DuplicateKey\<close> and changes
  nothing). The code breaks it: in the tree of \<open>a\<close>, \<open>b\<close>, \<open>c\<close> the key \<open>a\<close> is in the
  leaf of page 2; a further \<open>Insert(a, [1])\<close> descends to the right child as the search
  does, does not find \<open>a\<close> in the leaf of page 1, and succeeds: that leaf then holds
  \<open>a\<close>, \<open>b\<close>, \<open>c\<close>.
\<close>

theorem Insert_present_key_after_split:
  "leaf_keys (page_after abc 2) = Some [[0x61]]
   \<and> leaf_keys (page_after abc 1) = Some [[0x62], [0x63]]
   \<and> after_inserts (abc @ [([0x61], [1])]) \<noteq> None
   \<and> leaf_keys (page_after (abc @ [([0x61], [1])]) 1) = Some [[0x61], [0x62], [0x63]]"
  by (simp add: abc_def tree_eval cong: weak_congs)


subsection \<open>Searching the empty tree\<close>

text \<open>
  The slot of an iterator is a signed 64-bit integer that \<open>advance\<close> increments on every
  call, also past the end of the last leaf.  As long as it stays below \<open>2 ^ 63\<close> it is
  read back as the number it counts.
\<close>

lemma sint_of_nat_small:
  assumes "i < 2 ^ 63"
  shows "sint (of_nat i :: 64 word) = int i"
proof -
  have "signed_take_bit 63 (int i) = int i"
    using assms by (intro signed_take_bit_int_eq_self) auto
  then show ?thesis by (simp add: signed_of_nat)
qed

text \<open>
  An iterator on an empty leaf without a successor keeps answering \<open>nil\<close>: every \<open>Next\<close>
  only moves the slot one further.
\<close>

lemma Next_results_exhausted:
  assumes "buffer_Leaf m b = Inr l" and "pairs l = []" and "next_page_id l = InvalidPageID"
  shows "i + j < 2 ^ 63 \<Longrightarrow>
         Next_results j m \<lparr>buffer = b, slotID = of_nat i\<rparr> = replicate j (Inr None)"
proof (induction j arbitrary: i)
  case 0
  then show ?case by simp
next
  case (Suc j)
  have i: "i < 2 ^ 63" and i1: "Suc i < 2 ^ 63" using Suc.prems by simp_all
  have s: "sint (of_nat i :: 64 word) = int i" using i by (rule sint_of_nat_small)
  have s1: "sint (of_nat (Suc i) :: 64 word) = int (Suc i)" using i1 by (rule sint_of_nat_small)
  have w: "(of_nat i :: 64 word) + 1 = of_nat (Suc i)" by simp
  have g: "Iter_get m \<lparr>buffer = b, slotID = of_nat i\<rparr> = Inr None"
    using assms s by (simp add: Iter_get_def NumPairs_def)
  have a: "Iter_advance m \<lparr>buffer = b, slotID = of_nat i\<rparr>
             = (None, \<lparr>buffer = b, slotID = of_nat (Suc i)\<rparr>, m)"
    using assms s1 by (simp add: Iter_advance_def NumPairs_def NextPageID_def Let_def w del: of_nat_Suc)
  have n: "Iter_Next m \<lparr>buffer = b, slotID = of_nat i\<rparr>
             = (Inr None, \<lparr>buffer = b, slotID = of_nat (Suc i)\<rparr>, m)"
    by (simp add: Iter_Next_def g a)
  have "Next_results j m \<lparr>buffer = b, slotID = of_nat (Suc i)\<rparr> = replicate j (Inr None)"
    using Suc.IH [of "Suc i"] Suc.prems by simp
  then show ?case by (simp add: n del: of_nat_Suc)
qed

text \<open>
  \<open>Create\<close> on a new manager with at least two frames puts the meta page into frame 0 and
  the root leaf into frame 1.  A search then finds the empty root leaf; slot 0 equals the
  number of pairs, so the iterator is advanced once and comes back on frame 1 at slot 1.
\<close>

lemma empty_tree_Search:
  "\<exists>t m1 m2. Create (new_bufmgr d (Suc (Suc k))) = (Inr t, m1)
     \<and> Search (Suc f) t m1 s = Some (Inr \<lparr>buffer = 1, slotID = of_nat 1\<rparr>, m2)
     \<and> buffer_Leaf m2 1 = Inr Leaf_Initialize"
proof (cases s)
  case SearchStart
  show ?thesis
    unfolding SearchStart
    by (simp add: new_bufmgr_def tree_eval cong: weak_congs)
next
  case (SearchKey key)
  show ?thesis
    unfolding SearchKey
    by (simp add: new_bufmgr_def tree_eval cong: weak_congs)
qed

text \<open>
  With no frame \<open>Create\<close> panics in \<open>Evict\<close> (the cursor is advanced modulo the pool size
  0); with one frame the meta page pins it and the root page finds no free buffer.
\<close>

lemma Create_pool_0: "Create (new_bufmgr d 0) = (Inl Panic, new_bufmgr d 0)"
  by (simp add: new_bufmgr_def tree_eval cong: weak_congs)

lemma Create_pool_1: "fst (Create (new_bufmgr d (Suc 0))) = Inl ErrNoFreeBuffer"
  by (simp add: new_bufmgr_def tree_eval cong: weak_congs)

lemma Create_succeeds_iff:
  "(\<exists>t m1. Create (new_bufmgr d n) = (Inr t, m1)) = (2 \<le> n)"
proof (cases n)
  case 0
  then show ?thesis by (simp add: Create_pool_0)
next
  case (Suc k)
  show ?thesis
  proof (cases k)
    case 0
    have "fst (Create (new_bufmgr d n)) = Inl ErrNoFreeBuffer"
      using Suc 0 by (simp add: Create_pool_1)
    then show ?thesis using Suc 0 by auto
  next
    case (Suc k')
    have "\<exists>t m1. Create (new_bufmgr d n) = (Inr t, m1)"
      using empty_tree_Search [of d k' 0 SearchStart] \<open>n = Suc k\<close> Suc by blast
    then show ?thesis using \<open>n = Suc k\<close> Suc by simp
  qed
qed

text \<open>
  Claim C10.  A tree is created on a new buffer pool manager (any heap file, a pool of \<open>n\<close>
  frames) exactly when the pool has at least two frames.  On the tree so created, with no
  insert, \<open>Search\<close> with \<open>Start\<close> or with any key succeeds, whatever fuel the descent is
  given, and returns an iterator on which the first \<open>Next\<close> and every later one yield no
  pair and no error.  The number \<open>j\<close> of \<open>Next\<close> calls is bounded by \<open>2 ^ 63 - 1\<close>: each call
  increments the signed 64-bit slot of the iterator, which would turn negative after that
  many calls.
\<close>

theorem empty_tree_Search_Next:
  "((\<exists>t m1. Create (new_bufmgr d n) = (Inr t, m1)) = (2 \<le> n)) \<and>
   (2 \<le> n \<longrightarrow>
     (\<exists>t m1 it m2. Create (new_bufmgr d n) = (Inr t, m1)
        \<and> Search (Suc f) t m1 s = Some (Inr it, m2)
        \<and> (\<forall>j. j < 2 ^ 63 - 1 \<longrightarrow> Next_results j m2 it = replicate j (Inr None))))"
proof (intro conjI impI)
  show "(\<exists>t m1. Create (new_bufmgr d n) = (Inr t, m1)) = (2 \<le> n)"
    by (rule Create_succeeds_iff)
next
  assume "2 \<le> n"
  then obtain k where n: "n = Suc (Suc k)"
    by (metis Suc_le_D numeral_2_eq_2 Suc_le_mono)
  obtain t m1 m2 where c: "Create (new_bufmgr d n) = (Inr t, m1)"
    and s: "Search (Suc f) t m1 s = Some (Inr \<lparr>buffer = 1, slotID = of_nat 1\<rparr>, m2)"
    and l: "buffer_Leaf m2 1 = Inr Leaf_Initialize"
    using empty_tree_Search [of d k f s] n by blast
  have "Next_results j m2 \<lparr>buffer = 1, slotID = of_nat 1\<rparr> = replicate j (Inr None)"
    if "j < 2 ^ 63 - 1" for j
  proof (rule Next_results_exhausted [OF l])
    show "pairs Leaf_Initialize = []" by (simp add: Leaf_Initialize_def)
    show "next_page_id Leaf_Initialize = InvalidPageID" by (simp add: Leaf_Initialize_def)
    show "1 + j < 2 ^ 63" using that by simp
  qed
  then show "\<exists>t m1 it m2. Create (new_bufmgr d n) = (Inr t, m1)
        \<and> Search (Suc f) t m1 s = Some (Inr it, m2)
        \<and> (\<forall>j. j < 2 ^ 63 - 1 \<longrightarrow> Next_results j m2 it = replicate j (Inr None))"
    using c s by blast
qed

theorem empty_tree_Search_Next_witness:
  "\<exists>t m1 it m2. Create (new_bufmgr \<lparr>heapFile = [], nextPageID = 0\<rparr> 2) = (Inr t, m1)
        \<and> Search 1 t m1 SearchStart = Some (Inr it, m2)
        \<and> Next_results 3 m2 it = [Inr None, Inr None, Inr None]"
proof -
  have r: "replicate 3 (Inr None) = [Inr None, Inr None, Inr None :: error + Pair option]"
    by (simp add: numeral_3_eq_3)
  have j: "(3::nat) < 2 ^ 63 - 1" by simp
  show ?thesis
    using empty_tree_Search_Next [of "\<lparr>heapFile = [], nextPageID = 0\<rparr>" 2 0 SearchStart] r j
    by (metis One_nat_def order_refl)
qed
end
